theory Spec2Isabelle
  imports
    Main
    "HOL-Library.AList"
    "HOL-Library.Char_ord"
    "HOL-Library.List_Lexorder"
begin

section \<open>Python values and errors\<close>

text \<open>
  The exceptions the modelled code can raise. \<open>RuntimeError\<close> is raised by
  \<open>_apply_extra_filters\<close>; \<open>KeyError\<close>, \<open>AttributeError\<close> and \<open>IndexError\<close> are what
  Python raises for \<open>d[k]\<close> on a missing key, for a method call on \<open>None\<close> and for
  \<open>xs[-1]\<close> on an empty list. A leading underscore is not allowed in a constant's name,
  so \<open>_include_app\<close> is \<open>include_app\<close> here, and so on.
\<close>

datatype error = AttributeError | KeyError | IndexError | RuntimeError

text \<open>\<open>xs[-1]\<close>: the last element, \<open>IndexError\<close> on an empty list.\<close>

definition py_last :: "'a list \<Rightarrow> error + 'a" where
  "py_last xs = (case xs of [] \<Rightarrow> Inl IndexError | _ # _ \<Rightarrow> Inr (last xs))"

text \<open>
  \<open>s.split(sep)\<close> for a separator of one character: the pieces between the occurrences
  of \<open>sep\<close>, empty pieces included, so the result is never empty.
\<close>

fun split_sep :: "char \<Rightarrow> string \<Rightarrow> string list" where
  "split_sep sep [] = [[]]"
| "split_sep sep (c # cs) =
     (if c = sep then [] # split_sep sep cs
      else (case split_sep sep cs of
              [] \<Rightarrow> [[c]]
            | w # ws \<Rightarrow> (c # w) # ws))"

section \<open>Charm name extraction (upgrade\_utils.py, \<open>extract_charm_name_from_url\<close>)\<close>

definition is_digit :: "char \<Rightarrow> bool" where
  "is_digit c = (c \<in> set ''0123456789'')"

text \<open>
  The pattern \<open>-[0-9]+$\<close> tried at the head of a string. The digits are matched
  greedily; giving a digit back cannot help, since \<open>$\<close> would then stand before a digit.
  Without the MULTILINE flag \<open>$\<close> matches at the end of the string and also just before
  a newline that ends the string. The result is what follows the match.
\<close>

fun match_revision_at :: "string \<Rightarrow> string option" where
  "match_revision_at [] = None"
| "match_revision_at (c # cs) =
     (if c = CHR ''-'' then
        (let ds = takeWhile is_digit cs; r = dropWhile is_digit cs
         in if ds \<noteq> [] \<and> (r = [] \<or> r = [CHR 0x0A]) then Some r else None)
      else None)"

lemma match_revision_at_rest:
  "match_revision_at (c # cs) = Some r \<Longrightarrow> r = dropWhile is_digit cs"
  by (simp add: Let_def split: if_splits)

lemma match_revision_at_shorter:
  "match_revision_at s = Some r \<Longrightarrow> length r < length s"
proof (cases s)
  case Nil
  assume "match_revision_at s = Some r"
  with Nil show ?thesis by simp
next
  case (Cons c cs)
  assume "match_revision_at s = Some r"
  with Cons have "r = dropWhile is_digit cs"
    using match_revision_at_rest by blast
  then have "length r \<le> length cs"
    by (simp add: length_dropWhile_le)
  with Cons show ?thesis by simp
qed

text \<open>
  \<open>re.sub(r'-[0-9]+$', '', s)\<close>: scan from the left, delete a match and go on behind
  it, copy any other character.
\<close>

function re_sub_revision :: "string \<Rightarrow> string" where
  "re_sub_revision [] = []"
| "re_sub_revision (c # cs) =
     (case match_revision_at (c # cs) of
        Some r \<Rightarrow> re_sub_revision r
      | None \<Rightarrow> c # re_sub_revision cs)"
  by pat_completeness auto
termination
  by (relation "measure length")
     (auto simp del: match_revision_at.simps dest!: match_revision_at_shorter)

text \<open>
  The argument is a Python value that is a string or \<open>None\<close>; \<open>None.split\<close> raises
  \<open>AttributeError\<close>.
\<close>

definition extract_charm_name_from_url :: "string option \<Rightarrow> error + string" where
  "extract_charm_name_from_url charm_url =
     (case charm_url of
        None \<Rightarrow> Inl AttributeError
      | Some url \<Rightarrow>
          (case py_last (split_sep CHR ''/'' url) of
             Inl e \<Rightarrow> Inl e
           | Inr seg \<Rightarrow> py_last (split_sep CHR '':'' (re_sub_revision seg))))"

text \<open>
  The order of the steps as the specification words it: the revision suffix is stripped
  from the whole URL, then what follows the last \<open>:\<close> is taken, then what follows the
  last \<open>/\<close>.
\<close>

definition extract_spec_order :: "string \<Rightarrow> string" where
  "extract_spec_order url =
     last (split_sep CHR ''/'' (last (split_sep CHR '':'' (re_sub_revision url))))"

section \<open>The upgrade-group planner (upgrade\_utils.py)\<close>

definition SERVICE_GROUPS :: "(string \<times> string list) list" where
  "SERVICE_GROUPS =
     [(''Database Services'', [''percona-cluster'', ''mysql-innodb-cluster'']),
      (''Stateful Services'', [''rabbitmq-server'', ''ceph-mon'']),
      (''Core Identity'', [''keystone'']),
      (''Control Plane'',
         [''aodh'', ''barbican'', ''ceilometer'', ''ceph-fs'',
          ''ceph-radosgw'', ''cinder'', ''designate'',
          ''designate-bind'', ''glance'', ''gnocchi'', ''heat'', ''manila'',
          ''manila-generic'', ''neutron-api'', ''neutron-gateway'', ''placement'',
          ''nova-cloud-controller'', ''openstack-dashboard'']),
      (''Data Plane'',
         [''nova-compute'', ''ceph-osd'',
          ''swift-proxy'', ''swift-storage''])]"

definition UPGRADE_EXCLUDE_LIST :: "string list" where
  "UPGRADE_EXCLUDE_LIST = [''rabbitmq-server'', ''percona-cluster'']"

text \<open>
  One application's entry of the status snapshot, a dictionary of which the code reads
  two keys. \<open>charm\<close> is \<open>None\<close> when the key is absent, \<open>Some None\<close> when its value is
  Python's \<open>None\<close>; \<open>subordinate_to\<close> is \<open>None\<close> when the key \<open>subordinate-to\<close> is
  absent.
\<close>

record app_config =
  charm :: "string option option"
  subordinate_to :: "string list option"

text \<open>
  A dictionary of applications is an association list in insertion order, with distinct
  keys. A filter is called as \<open>filt(app, app_config, model_name=model_name)\<close>; it
  returns true to exclude the application, and it may raise.
\<close>

type_synonym applications = "(string \<times> app_config) list"

type_synonym app_filter = "string \<Rightarrow> app_config \<Rightarrow> string option \<Rightarrow> error + bool"

text \<open>The expression \<open>extract_charm_name_from_url(app_config['charm'])\<close>.\<close>

definition charm_name_of :: "app_config \<Rightarrow> error + string" where
  "charm_name_of cfg =
     (case charm cfg of
        None \<Rightarrow> Inl KeyError
      | Some url \<Rightarrow> extract_charm_name_from_url url)"

fun include_app :: "string \<Rightarrow> app_config \<Rightarrow> app_filter list \<Rightarrow> string option \<Rightarrow> error + bool" where
  "include_app app cfg [] model_name = Inr True"
| "include_app app cfg (filt # filters) model_name =
     (case filt app cfg model_name of
        Inl e \<Rightarrow> Inl e
      | Inr excluded \<Rightarrow>
          if excluded then Inr False else include_app app cfg filters model_name)"

text \<open>
  The loop of \<open>get_upgrade_candidates\<close> over \<open>status.applications.items()\<close>;
  \<open>candidates[app] = app_config\<close> is \<open>AList.update\<close>.
\<close>

fun candidates_loop ::
  "applications \<Rightarrow> app_filter list \<Rightarrow> string option \<Rightarrow> applications \<Rightarrow> error + applications" where
  "candidates_loop [] filters model_name candidates = Inr candidates"
| "candidates_loop ((app, cfg) # rest) filters model_name candidates =
     (case include_app app cfg filters model_name of
        Inl e \<Rightarrow> Inl e
      | Inr included \<Rightarrow>
          if included
          then candidates_loop rest filters model_name (AList.update app cfg candidates)
          else candidates_loop rest filters model_name candidates)"

text \<open>
  \<open>zaza.model.get_status\<close> is an external call: \<open>get_status model_name\<close> stands for the
  applications of the status it returns.
\<close>

definition get_upgrade_candidates ::
  "(string option \<Rightarrow> applications) \<Rightarrow> string option \<Rightarrow> app_filter list option
     \<Rightarrow> error + applications" where
  "get_upgrade_candidates get_status model_name filters =
     (let filters' = (case filters of None \<Rightarrow> [] | Some fs \<Rightarrow> fs)
      in candidates_loop (get_status model_name) filters' model_name [])"

definition filter_subordinates :: app_filter where
  "filter_subordinates app cfg model_name =
     (case subordinate_to cfg of
        None \<Rightarrow> Inr False
      | Some subs \<Rightarrow> Inr (subs \<noteq> []))"

definition filter_openstack_upgrade_list :: app_filter where
  "filter_openstack_upgrade_list app cfg model_name =
     (case charm_name_of cfg of
        Inl e \<Rightarrow> Inl e
      | Inr charm_name \<Rightarrow>
          Inr (app \<in> set UPGRADE_EXCLUDE_LIST \<or> charm_name \<in> set UPGRADE_EXCLUDE_LIST))"

text \<open>
  \<open>zaza.model.get_application_config\<close> is an external call: \<open>get_application_config app
  model_name\<close> stands for the keys of the dictionary it returns.
\<close>

definition filter_non_openstack_services ::
  "(string \<Rightarrow> string option \<Rightarrow> string list) \<Rightarrow> app_filter" where
  "filter_non_openstack_services get_application_config app cfg model_name =
     (let charm_options = get_application_config app model_name;
          src_options = [''openstack-origin'', ''source'']
      in Inr (filter (\<lambda>x. x \<in> set charm_options) src_options = []))"

text \<open>
  The value passed as \<open>extra_filters\<close>: \<open>None\<close>, a list, a callable (a function object,
  which is truthy), or any other value, of which only the truth value matters.
\<close>

datatype extra_filters =
    PyNone
  | PyList "app_filter list"
  | PyCallable app_filter
  | PyOther bool

fun truthy :: "extra_filters \<Rightarrow> bool" where
  "truthy PyNone = False"
| "truthy (PyList fs) = (fs \<noteq> [])"
| "truthy (PyCallable f) = True"
| "truthy (PyOther b) = b"

definition apply_extra_filters :: "app_filter list \<Rightarrow> extra_filters \<Rightarrow> error + app_filter list" where
  "apply_extra_filters filters extra =
     (if truthy extra then
        (case extra of
           PyList fs \<Rightarrow> Inr (filters @ fs)
         | PyCallable f \<Rightarrow> Inr (filters @ [f])
         | _ \<Rightarrow> Inl RuntimeError)
      else Inr filters)"

text \<open>The inner loop of \<open>_build_service_groups\<close>: one phase's group, before sorting.\<close>

fun collect_group :: "string list \<Rightarrow> applications \<Rightarrow> error + string list" where
  "collect_group charms [] = Inr []"
| "collect_group charms ((app, cfg) # rest) =
     (case charm_name_of cfg of
        Inl e \<Rightarrow> Inl e
      | Inr charm_name \<Rightarrow>
          (case collect_group charms rest of
             Inl e \<Rightarrow> Inl e
           | Inr grp \<Rightarrow> Inr (if charm_name \<in> set charms then app # grp else grp)))"

text \<open>The outer loop, over the phases.\<close>

fun named_groups ::
  "(string \<times> string list) list \<Rightarrow> applications \<Rightarrow> error + (string \<times> string list) list" where
  "named_groups [] applications = Inr []"
| "named_groups ((phase_name, charms) # rest) applications =
     (case collect_group charms applications of
        Inl e \<Rightarrow> Inl e
      | Inr grp \<Rightarrow>
          (case named_groups rest applications of
             Inl e \<Rightarrow> Inl e
           | Inr groups \<Rightarrow> Inr ((phase_name, grp) # groups)))"

definition build_service_groups :: "applications \<Rightarrow> error + (string \<times> string list) list" where
  "build_service_groups applications =
     (case named_groups SERVICE_GROUPS applications of
        Inl e \<Rightarrow> Inl e
      | Inr groups \<Rightarrow>
          (let vals = concat (map snd groups);
               sweep_up = filter (\<lambda>app. app \<notin> set vals) (map fst applications)
           in Inr (map (\<lambda>(name, grp). (name, sort grp))
                     (groups @ [(''sweep_up'', sweep_up)]))))"

text \<open>
  The two statements the three entry points end with:
  \<open>get_upgrade_candidates\<close> with the filter chain, then \<open>_build_service_groups\<close>.
\<close>

definition plan_groups ::
  "(string option \<Rightarrow> applications) \<Rightarrow> string option \<Rightarrow> app_filter list
     \<Rightarrow> error + (string \<times> string list) list" where
  "plan_groups get_status model_name filters =
     (case get_upgrade_candidates get_status model_name (Some filters) of
        Inl e \<Rightarrow> Inl e
      | Inr apps_in_model \<Rightarrow> build_service_groups apps_in_model)"

definition get_upgrade_groups ::
  "(string option \<Rightarrow> applications) \<Rightarrow> (string \<Rightarrow> string option \<Rightarrow> string list)
     \<Rightarrow> string option \<Rightarrow> extra_filters \<Rightarrow> error + (string \<times> string list) list" where
  "get_upgrade_groups get_status get_application_config model_name extra =
     (case apply_extra_filters
             [filter_subordinates,
              filter_openstack_upgrade_list,
              filter_non_openstack_services get_application_config] extra of
        Inl e \<Rightarrow> Inl e
      | Inr filters \<Rightarrow> plan_groups get_status model_name filters)"

definition get_series_upgrade_groups ::
  "(string option \<Rightarrow> applications) \<Rightarrow> string option \<Rightarrow> extra_filters
     \<Rightarrow> error + (string \<times> string list) list" where
  "get_series_upgrade_groups get_status model_name extra =
     (case apply_extra_filters [filter_subordinates] extra of
        Inl e \<Rightarrow> Inl e
      | Inr filters \<Rightarrow> plan_groups get_status model_name filters)"

definition get_charm_upgrade_groups ::
  "(string option \<Rightarrow> applications) \<Rightarrow> string option \<Rightarrow> extra_filters
     \<Rightarrow> error + (string \<times> string list) list" where
  "get_charm_upgrade_groups get_status model_name extra =
     (case apply_extra_filters [] extra of
        Inl e \<Rightarrow> Inl e
      | Inr filters \<Rightarrow> plan_groups get_status model_name filters)"

section \<open>The process validator and process-id discovery (generic.py)\<close>

text \<open>
  Modelled from the spec: \<open>validate_unit_process_ids\<close> and \<open>get_process_id_list\<close> of
  \<open>zaza/openstack/utilities/generic.py\<close>, of which only the unit tests are at hand.
  The definitions of this section follow sections 3, 4.2 and 4.3 of the specification;
  the inputs and results of the unit tests are checked against them below.
\<close>

text \<open>
  Modelled from the spec: the expected count of a process, an integer or a sequence of
  acceptable counts.
\<close>

datatype expected_count = ExactCount int | OneOf "int list"

text \<open>
  Modelled from the spec: the error kinds of section 7, with what each reports:
  the missing unit, the absent process name, and unit, process, expected value and actual
  count.
\<close>

datatype validation_error =
    UnitCountMismatch
  | UnitNotFound string
  | ProcessNameCountMismatch
  | ProcessNameMismatch string
  | PIDCountMismatch string string expected_count nat
  | ProcessIdsFailed

type_synonym expected_process_map = "(string \<times> (string \<times> expected_count) list) list"

type_synonym actual_process_map = "(string \<times> (string \<times> string list) list) list"

text \<open>Modelled from the spec: check 5, for one unit and process.\<close>

definition pid_count_ok :: "expected_count \<Rightarrow> string list \<Rightarrow> bool" where
  "pid_count_ok e pids =
     (case e of
        ExactCount n \<Rightarrow> int (length pids) = n
      | OneOf ns \<Rightarrow> int (length pids) \<in> set ns)"

text \<open>
  \<open>actual[unit]\<close> and \<open>actual[unit][process]\<close>, read only where checks 2 and 4 have
  passed, so the value given for a missing key is never used.
\<close>

definition actual_procs :: "actual_process_map \<Rightarrow> string \<Rightarrow> (string \<times> string list) list" where
  "actual_procs actual u = (case map_of actual u of None \<Rightarrow> [] | Some procs \<Rightarrow> procs)"

definition actual_pids :: "actual_process_map \<Rightarrow> string \<Rightarrow> string \<Rightarrow> string list" where
  "actual_pids actual u p = (case map_of (actual_procs actual u) p of None \<Rightarrow> [] | Some pids \<Rightarrow> pids)"

text \<open>All (unit, process, expected value) of the expected map, in its order.\<close>

definition expected_entries :: "expected_process_map \<Rightarrow> (string \<times> string \<times> expected_count) list" where
  "expected_entries expected =
     concat (map (\<lambda>(u, procs). map (\<lambda>(p, e). (u, p, e)) procs) expected)"

text \<open>
  Modelled from the spec: the five checks of section 4.2, each over all units and
  processes, in the order the specification numbers them; the first that fails gives the
  error.
\<close>

definition validate_unit_process_ids ::
  "expected_process_map \<Rightarrow> actual_process_map \<Rightarrow> validation_error + bool" where
  "validate_unit_process_ids expected actual =
     (if length expected \<noteq> length actual then Inl UnitCountMismatch
      else
        (case find (\<lambda>u. map_of actual u = None) (map fst expected) of
           Some u \<Rightarrow> Inl (UnitNotFound u)
         | None \<Rightarrow>
             (case find (\<lambda>(u, procs). length procs \<noteq> length (actual_procs actual u)) expected of
                Some _ \<Rightarrow> Inl ProcessNameCountMismatch
              | None \<Rightarrow>
                  (case find (\<lambda>(u, p, e). map_of (actual_procs actual u) p = None)
                          (expected_entries expected) of
                     Some (u, p, e) \<Rightarrow> Inl (ProcessNameMismatch p)
                   | None \<Rightarrow>
                       (case find (\<lambda>(u, p, e). \<not> pid_count_ok e (actual_pids actual u p))
                               (expected_entries expected) of
                          Some (u, p, e) \<Rightarrow>
                            Inl (PIDCountMismatch u p e (length (actual_pids actual u p)))
                        | None \<Rightarrow> Inr True)))))"

text \<open>
  Modelled from the spec: the result of the remote command, \<open>{Code, Stdout, Stderr}\<close>;
  the unit test gives the code as an integer.
\<close>

record command_result =
  Code :: int
  Stdout :: string
  Stderr :: string

text \<open>
  The characters \<open>s.split()\<close> splits on, those for which \<open>str.isspace\<close> holds, among
  the code points below 256: tab to carriage return, the four separators \<open>0x1C\<close> to
  \<open>0x1F\<close>, the space, \<open>0x85\<close> and \<open>0xA0\<close>.
\<close>

definition is_space :: "char \<Rightarrow> bool" where
  "is_space c =
     (c \<in> set [CHR 0x09, CHR 0x0A, CHR 0x0B, CHR 0x0C, CHR 0x0D,
                CHR 0x1C, CHR 0x1D, CHR 0x1E, CHR 0x1F, CHR '' '', CHR 0x85, CHR 0xA0])"

text \<open>
  \<open>s.split()\<close>: the maximal runs of characters that are not whitespace, found in one
  scan that carries the run read so far.
\<close>

fun words_acc :: "string \<Rightarrow> string \<Rightarrow> string list" where
  "words_acc cur [] = (if cur = [] then [] else [cur])"
| "words_acc cur (c # cs) =
     (if is_space c
      then (if cur = [] then words_acc [] cs else cur # words_acc [] cs)
      else words_acc (cur @ [c]) cs)"

definition split_whitespace :: "string \<Rightarrow> string list" where
  "split_whitespace s = words_acc [] s"

text \<open>
  Modelled from the spec: \<open>get_process_id_list\<close> of section 4.3. \<open>run_on_unit\<close> is the
  external execution collaborator; the command strings are those the unit test expects.
  A result code other than 0 fails with \<open>ProcessIdsFailed\<close> unless \<open>expect_success\<close> is
  false.
\<close>

definition pidof_command :: "string \<Rightarrow> bool \<Rightarrow> string" where
  "pidof_command process_name expect_success =
     ''pidof -x '' @ [CHR 0x22] @ process_name @ [CHR 0x22]
       @ (if expect_success then [] else '' || exit 0 && exit 1'')"

definition get_process_id_list ::
  "(string \<Rightarrow> string \<Rightarrow> command_result) \<Rightarrow> string \<Rightarrow> string \<Rightarrow> bool
     \<Rightarrow> validation_error + string list" where
  "get_process_id_list run_on_unit unit_name process_name expect_success =
     (let cmd = pidof_command process_name expect_success;
          results = run_on_unit unit_name cmd
      in if Code results \<noteq> 0 \<and> expect_success then Inl ProcessIdsFailed
         else Inr (split_whitespace (Stdout results)))"

text \<open>
  Modelled from the spec: the five checks of section 4.2 as properties of the two maps,
  used to state what the validator returns.
\<close>

definition unit_count_ok :: "expected_process_map \<Rightarrow> actual_process_map \<Rightarrow> bool" where
  "unit_count_ok expected actual = (length expected = length actual)"

definition units_found :: "expected_process_map \<Rightarrow> actual_process_map \<Rightarrow> bool" where
  "units_found expected actual = list_all (\<lambda>u. map_of actual u \<noteq> None) (map fst expected)"

definition process_name_counts_ok :: "expected_process_map \<Rightarrow> actual_process_map \<Rightarrow> bool" where
  "process_name_counts_ok expected actual =
     list_all (\<lambda>(u, procs). length procs = length (actual_procs actual u)) expected"

definition process_names_found :: "expected_process_map \<Rightarrow> actual_process_map \<Rightarrow> bool" where
  "process_names_found expected actual =
     list_all (\<lambda>(u, p, e). map_of (actual_procs actual u) p \<noteq> None) (expected_entries expected)"

definition pid_counts_ok :: "expected_process_map \<Rightarrow> actual_process_map \<Rightarrow> bool" where
  "pid_counts_ok expected actual =
     list_all (\<lambda>(u, p, e). pid_count_ok e (actual_pids actual u p)) (expected_entries expected)"

text \<open>
  The maps of \<open>test_validate_unit_process_ids\<close> (test\_zaza\_utilities\_generic.py): the
  expected map and the seven actual maps the test passes, in the test's order.
\<close>

definition test_expected :: expected_process_map where
  "test_expected =
     [(''ceph-osd/0'', [(''ceph-osd'', ExactCount 2)]),
      (''unit/0'', [(''pr1'', ExactCount 2), (''pr2'', OneOf [1, 2])])]"

definition test_actual_empty :: actual_process_map where
  "test_actual_empty = []"

definition test_actual_unit_missing :: actual_process_map where
  "test_actual_unit_missing =
     [(''ceph-osd/0'', [(''ceph-osd'', [''1'', ''2''])]),
      (''unit/1'', [(''pr1'', [''1'', ''2'']), (''pr2'', [''1'', ''2''])])]"

definition test_actual_one_name :: actual_process_map where
  "test_actual_one_name =
     [(''ceph-osd/0'', [(''ceph-osd'', [''1'', ''2''])]),
      (''unit/0'', [(''pr1'', [''1'', ''2''])])]"

definition test_actual_bad_name :: actual_process_map where
  "test_actual_bad_name =
     [(''ceph-osd/0'', [(''ceph-osd'', [''1'', ''2''])]),
      (''unit/0'', [(''bad_name'', [''1'', ''2'']), (''pr2'', [''1'', ''2''])])]"

definition test_actual_one_pid :: actual_process_map where
  "test_actual_one_pid =
     [(''ceph-osd/0'', [(''ceph-osd'', [''1'', ''2''])]),
      (''unit/0'', [(''pr1'', [''2'']), (''pr2'', [''1'', ''2''])])]"

definition test_actual_three_pids :: actual_process_map where
  "test_actual_three_pids =
     [(''ceph-osd/0'', [(''ceph-osd'', [''1'', ''2''])]),
      (''unit/0'', [(''pr1'', [''1'', ''2'']), (''pr2'', [''1'', ''2'', ''3''])])]"

definition test_actual_ok :: actual_process_map where
  "test_actual_ok =
     [(''ceph-osd/0'', [(''ceph-osd'', [''1'', ''2''])]),
      (''unit/0'', [(''pr1'', [''1'', ''2'']), (''pr2'', [''1'', ''2''])])]"

text \<open>
  The two results \<open>test_get_process_id_list\<close> lets the remote command return.
\<close>

definition returns_ok :: command_result where
  "returns_ok = \<lparr>Code = 0, Stdout = ''1 2'', Stderr = []\<rparr>"

definition returns_nok :: command_result where
  "returns_nok = \<lparr>Code = 1, Stdout = [], Stderr = ''Something went wrong''\<rparr>"

section \<open>Notions used to state the planner's properties\<close>

text \<open>
  Whether an application's extracted charm name is in a list of charm names, the
  applications of a dictionary for which it is, and those for which it is in no phase's
  list.
\<close>

definition charm_in :: "string list \<Rightarrow> app_config \<Rightarrow> bool" where
  "charm_in charms cfg =
     (case charm_name_of cfg of Inl e \<Rightarrow> False | Inr charm_name \<Rightarrow> charm_name \<in> set charms)"

definition phase_members :: "string list \<Rightarrow> applications \<Rightarrow> string list" where
  "phase_members charms apps = map fst (filter (\<lambda>(app, cfg). charm_in charms cfg) apps)"

definition unmatched_members :: "(string \<times> string list) list \<Rightarrow> applications \<Rightarrow> string list" where
  "unmatched_members phases apps =
     map fst (filter (\<lambda>(app, cfg). list_all (\<lambda>(name, charms). \<not> charm_in charms cfg) phases) apps)"

text \<open>
  The applications the filter chain keeps: those for which \<open>_include_app\<close> returns true.
\<close>

definition survivors :: "applications \<Rightarrow> app_filter list \<Rightarrow> string option \<Rightarrow> applications" where
  "survivors apps filters model_name =
     filter (\<lambda>(app, cfg). include_app app cfg filters model_name = Inr True) apps"

text \<open>
  A status snapshot to try the planner on: a subordinate (\<open>ntp\<close>), an application in
  no phase (\<open>zebra\<close>), an application named differently from its charm (\<open>db\<close>), and
  two applications of one phase.
\<close>

definition example_applications :: applications where
  "example_applications =
     [(''nova'', \<lparr>charm = Some (Some ''local:bionic/nova-compute-0''), subordinate_to = Some []\<rparr>),
      (''keystone'', \<lparr>charm = Some (Some ''cs:keystone-5''), subordinate_to = None\<rparr>),
      (''ntp'', \<lparr>charm = Some (Some ''cs:ntp-1''), subordinate_to = Some [''keystone'']\<rparr>),
      (''zebra'', \<lparr>charm = Some (Some ''cs:zebra''), subordinate_to = Some []\<rparr>),
      (''db'', \<lparr>charm = Some (Some ''cs:percona-cluster-3''), subordinate_to = Some []\<rparr>),
      (''glance'', \<lparr>charm = Some (Some ''cs:~openstack-charmers-next/glance''),
                   subordinate_to = Some []\<rparr>),
      (''cinder'', \<lparr>charm = Some (Some ''cs:cinder-12''), subordinate_to = Some []\<rparr>)]"

section \<open>Properties of charm name extraction\<close>

lemma split_sep_nonempty: "split_sep sep s \<noteq> []"
  by (induction s) (auto split: list.splits)

lemma split_sep_notin: "sep \<notin> set s \<Longrightarrow> split_sep sep s = [s]"
  by (induction s) (auto split: list.splits)

lemma split_sep_single: "split_sep sep s = [w] \<Longrightarrow> sep \<notin> set s"
proof (induction s arbitrary: w)
  case Nil
  then show ?case by simp
next
  case (Cons c cs)
  show ?case
  proof (cases "c = sep")
    case True
    with Cons.prems show ?thesis by (simp add: split_sep_nonempty)
  next
    case False
    with Cons.prems obtain w' where "split_sep sep cs = [w']"
      by (auto simp: split_sep_nonempty split: list.splits)
    with Cons.IH False show ?thesis by simp
  qed
qed

lemma last_split_sep_Cons:
  "last (split_sep sep (c # cs)) =
     (if sep \<in> set cs then last (split_sep sep cs) else if c = sep then cs else c # cs)"
proof (cases "sep \<in> set cs")
  case False
  then show ?thesis by (simp add: split_sep_notin)
next
  case True
  obtain w ws where ws: "split_sep sep cs = w # ws"
    using split_sep_nonempty by (cases "split_sep sep cs") auto
  with True have "ws \<noteq> []"
    using split_sep_single by fastforce
  with ws True show ?thesis by simp
qed

lemma last_split_sep_notin: "sep \<notin> set s \<Longrightarrow> last (split_sep sep s) = s"
  by (simp add: split_sep_notin)

lemma set_last_split_sep: "set (last (split_sep sep s)) \<subseteq> set s"
proof (induction s)
  case Nil
  then show ?case by simp
next
  case (Cons c cs)
  then show ?case unfolding last_split_sep_Cons by auto
qed

lemma sep_notin_last_split_sep: "sep \<notin> set (last (split_sep sep s))"
proof (induction s)
  case Nil
  then show ?case by simp
next
  case (Cons c cs)
  then show ?case unfolding last_split_sep_Cons by auto
qed

lemma py_last_split_sep: "py_last (split_sep sep s) = Inr (last (split_sep sep s))"
  by (cases "split_sep sep s") (auto simp: py_last_def split_sep_nonempty)

lemma set_re_sub_revision: "set (re_sub_revision s) \<subseteq> set s"
proof (induction s rule: re_sub_revision.induct)
  case 1
  then show ?case by simp
next
  case (2 c cs)
  show ?case
  proof (cases "match_revision_at (c # cs)")
    case None
    with 2 show ?thesis by auto
  next
    case (Some r)
    then have "r = dropWhile is_digit cs" by (rule match_revision_at_rest)
    then have "set r \<subseteq> set cs" by (simp add: set_dropWhileD subsetI)
    with 2 Some show ?thesis by (auto simp del: match_revision_at.simps)
  qed
qed

lemma match_revision_at_Some:
  assumes "match_revision_at s = Some r"
  shows "(r = [] \<or> r = [CHR 0x0A]) \<and> re_sub_revision r = r
     \<and> (\<forall>x \<in> set s. x = CHR ''-'' \<or> is_digit x \<or> x = CHR 0x0A)"
proof (cases s)
  case Nil
  with assms show ?thesis by simp
next
  case (Cons c cs)
  with assms have c: "c = CHR ''-''" and r: "r = dropWhile is_digit cs"
    and rr: "r = [] \<or> r = [CHR 0x0A]"
    by (auto simp: Let_def split: if_splits)
  have "cs = takeWhile is_digit cs @ r" using r by simp
  then have "set cs = set (takeWhile is_digit cs) \<union> set r" by (metis set_append)
  moreover have "\<forall>x \<in> set (takeWhile is_digit cs). is_digit x"
    by (meson set_takeWhileD)
  ultimately have "\<forall>x \<in> set cs. is_digit x \<or> x = CHR 0x0A"
    using rr by auto
  moreover from rr have "re_sub_revision r = r" by auto
  ultimately show ?thesis using Cons c rr by auto
qed

lemma re_sub_revision_keeps:
  "x \<in> set s \<Longrightarrow> x \<noteq> CHR ''-'' \<Longrightarrow> \<not> is_digit x \<Longrightarrow> x \<noteq> CHR 0x0A \<Longrightarrow> x \<in> set (re_sub_revision s)"
proof (induction s rule: re_sub_revision.induct)
  case 1
  then show ?case by simp
next
  case (2 c cs)
  show ?case
  proof (cases "match_revision_at (c # cs)")
    case None
    with 2 show ?thesis by (auto simp del: match_revision_at.simps)
  next
    case (Some r)
    with 2 show ?thesis using match_revision_at_Some by blast
  qed
qed

lemma re_sub_revision_last_split:
  assumes "sep \<noteq> CHR ''-''" "\<not> is_digit sep" "sep \<noteq> CHR 0x0A"
  shows "re_sub_revision (last (split_sep sep s)) = last (split_sep sep (re_sub_revision s))"
proof (induction s rule: re_sub_revision.induct)
  case 1
  then show ?case by simp
next
  case (2 c cs)
  show ?case
  proof (cases "match_revision_at (c # cs)")
    case (Some r)
    from match_revision_at_Some[OF Some] assms
    have notin: "sep \<notin> set (c # cs)" and rr: "re_sub_revision r = r" and r: "r = [] \<or> r = [CHR 0x0A]"
      by blast+
    from r assms have "sep \<notin> set r" by auto
    then have "last (split_sep sep r) = r" by (rule last_split_sep_notin)
    moreover have "last (split_sep sep (c # cs)) = c # cs"
      using notin by (rule last_split_sep_notin)
    ultimately show ?thesis using Some rr by (simp del: match_revision_at.simps split_sep.simps)
  next
    case None
    then have rs: "re_sub_revision (c # cs) = c # re_sub_revision cs" by simp
    have IH: "re_sub_revision (last (split_sep sep cs)) = last (split_sep sep (re_sub_revision cs))"
      using 2 None by simp
    show ?thesis
    proof (cases "sep \<in> set cs")
      case True
      then have "sep \<in> set (re_sub_revision cs)"
        using assms re_sub_revision_keeps by blast
      with True IH rs show ?thesis
        by (simp del: re_sub_revision.simps split_sep.simps add: last_split_sep_Cons)
    next
      case False
      then have F': "sep \<notin> set (re_sub_revision cs)"
        using set_re_sub_revision by blast
      show ?thesis
      proof (cases "c = sep")
        case True
        with False F' IH rs show ?thesis
          by (simp del: re_sub_revision.simps split_sep.simps add: last_split_sep_Cons)
      next
        case F2: False
        with False F' rs show ?thesis
          by (simp del: re_sub_revision.simps split_sep.simps add: last_split_sep_Cons)
      qed
    qed
  qed
qed

lemma notin_last_split_sep: "x \<notin> set t \<Longrightarrow> x \<notin> set (last (split_sep y t))"
  using set_last_split_sep by blast

lemma last_split_sep_commute:
  "last (split_sep a (last (split_sep b s))) = last (split_sep b (last (split_sep a s)))"
proof (induction s)
  case Nil
  then show ?case by simp
next
  case (Cons c cs)
  show ?case
  proof (cases "b \<in> set cs")
    case True
    then show ?thesis
      using Cons
      by (simp del: split_sep.simps
          add: last_split_sep_Cons last_split_sep_notin notin_last_split_sep)
  next
    case False
    then have "last (split_sep b (last (split_sep a cs))) = last (split_sep a cs)"
      by (simp add: last_split_sep_notin notin_last_split_sep)
    with False show ?thesis
      by (simp del: split_sep.simps
          add: last_split_sep_Cons last_split_sep_notin notin_last_split_sep)
  qed
qed

lemma match_revision_at_append_suffix:
  assumes "ds \<noteq> []" "\<forall>d \<in> set ds. is_digit d"
  shows "match_revision_at (x # xs @ CHR ''-'' # ds) = None"
proof -
  define r where "r = dropWhile is_digit (xs @ CHR ''-'' # ds)"
  have nd: "\<not> is_digit CHR ''-''" by (simp add: is_digit_def)
  have "r = dropWhile is_digit xs @ CHR ''-'' # ds \<or> r = CHR ''-'' # ds"
    unfolding r_def using nd by (induction xs) auto
  then have "length r \<ge> 2"
    using assms(1) by (cases ds) auto
  then have "r \<noteq> []" and "r \<noteq> [CHR 0x0A]"
    by auto
  then show ?thesis
    unfolding r_def by (simp add: Let_def del: dropWhile_eq_Nil_conv)
qed

lemma match_revision_at_suffix:
  assumes "ds \<noteq> []" "\<forall>d \<in> set ds. is_digit d"
  shows "match_revision_at (CHR ''-'' # ds) = Some []"
proof -
  from assms(2) have "takeWhile is_digit ds = ds" "dropWhile is_digit ds = []"
    by auto
  with assms(1) show ?thesis by (simp add: Let_def del: takeWhile_eq_all_conv)
qed

lemma re_sub_revision_strips:
  assumes "ds \<noteq> []" "\<forall>d \<in> set ds. is_digit d"
  shows "re_sub_revision (name @ CHR ''-'' # ds) = name"
proof (induction name)
  case Nil
  show ?case using match_revision_at_suffix[OF assms]
    by (simp del: match_revision_at.simps)
next
  case (Cons x xs)
  show ?case using match_revision_at_append_suffix[OF assms, of x xs] Cons
    by (simp del: match_revision_at.simps)
qed

lemma extract_total:
  "extract_charm_name_from_url (Some url) =
     Inr (last (split_sep CHR '':'' (re_sub_revision (last (split_sep CHR ''/'' url)))))"
  by (simp add: extract_charm_name_from_url_def py_last_split_sep)

lemma extract_eq_spec_order:
  "extract_charm_name_from_url (Some url) = Inr (extract_spec_order url)"
proof -
  have "re_sub_revision (last (split_sep CHR ''/'' url)) =
        last (split_sep CHR ''/'' (re_sub_revision url))"
    by (rule re_sub_revision_last_split) (simp_all add: is_digit_def)
  then show ?thesis
    unfolding extract_total extract_spec_order_def
    by (simp add: last_split_sep_commute)
qed

lemma extract_scheme_series_name_revision:
  assumes "CHR ''/'' \<notin> set name" "CHR '':'' \<notin> set name"
    and "ds \<noteq> []" "\<forall>d \<in> set ds. is_digit d"
  shows "extract_charm_name_from_url (Some (prefix @ CHR ''/'' # name @ CHR ''-'' # ds)) = Inr name"
proof -
  have nd: "\<not> is_digit CHR ''/''" by (simp add: is_digit_def)
  with assms have "CHR ''/'' \<notin> set (name @ CHR ''-'' # ds)" by auto
  then have "last (split_sep CHR ''/'' (prefix @ CHR ''/'' # name @ CHR ''-'' # ds)) =
      name @ CHR ''-'' # ds"
    by (induction prefix) (simp_all del: split_sep.simps add: last_split_sep_Cons)
  then show ?thesis
    using assms by (simp add: extract_total re_sub_revision_strips last_split_sep_notin)
qed

text \<open>
  C4. Charm name extraction strips a trailing \<open>-<digits>\<close> revision suffix and any prefix
  up to the last \<open>/\<close> and \<open>:\<close>. The code splits on \<open>/\<close>, strips the revision and splits
  on \<open>:\<close>; this gives, for every URL, the same name as stripping the revision first and
  then taking what follows the last \<open>:\<close> and the last \<open>/\<close>, the order the specification
  words. \<open>local:bionic/heat-12\<close> and \<open>cs:heat\<close> both give \<open>heat\<close>, and every URL
  \<open>prefix/name-digits\<close> whose name holds neither \<open>/\<close> nor \<open>:\<close> gives the name.
\<close>

theorem extract_charm_name_from_url_spec:
  "extract_charm_name_from_url (Some url) = Inr (extract_spec_order url)
   \<and> extract_charm_name_from_url (Some ''local:bionic/heat-12'') = Inr ''heat''
   \<and> extract_charm_name_from_url (Some ''cs:heat'') = Inr ''heat''
   \<and> (CHR ''/'' \<notin> set name \<and> CHR '':'' \<notin> set name \<and> ds \<noteq> [] \<and> (\<forall>d \<in> set ds. is_digit d)
        \<longrightarrow> extract_charm_name_from_url (Some (prefix @ CHR ''/'' # name @ CHR ''-'' # ds))
              = Inr name)"
proof (intro conjI impI)
  show "extract_charm_name_from_url (Some url) = Inr (extract_spec_order url)"
    by (rule extract_eq_spec_order)
  show "extract_charm_name_from_url (Some ''local:bionic/heat-12'') = Inr ''heat''"
    by (simp add: extract_charm_name_from_url_def py_last_def is_digit_def)
  show "extract_charm_name_from_url (Some ''cs:heat'') = Inr ''heat''"
    by (simp add: extract_charm_name_from_url_def py_last_def is_digit_def)
next
  assume "CHR ''/'' \<notin> set name \<and> CHR '':'' \<notin> set name \<and> ds \<noteq> [] \<and> (\<forall>d \<in> set ds. is_digit d)"
  then show "extract_charm_name_from_url (Some (prefix @ CHR ''/'' # name @ CHR ''-'' # ds))
      = Inr name"
    by (simp add: extract_scheme_series_name_revision)
qed

theorem extract_charm_name_from_url_spec_witness:
  "extract_charm_name_from_url (Some ''cs:~openstack/nova-compute-312'')
     = Inr (extract_spec_order ''cs:~openstack/nova-compute-312'')
   \<and> extract_spec_order ''cs:~openstack/nova-compute-312'' = ''nova-compute''
   \<and> extract_charm_name_from_url (Some ''cs:~openstack/nova-compute-312'')
     = Inr ''nova-compute''"
proof -
  have prem: "CHR ''/'' \<notin> set ''nova-compute'' \<and> CHR '':'' \<notin> set ''nova-compute''
      \<and> ''312'' \<noteq> [] \<and> (\<forall>d \<in> set ''312''. is_digit d)"
    by (simp add: is_digit_def)
  have url: "''cs:~openstack'' @ CHR ''/'' # ''nova-compute'' @ CHR ''-'' # ''312''
      = ''cs:~openstack/nova-compute-312''"
    by simp
  note t = extract_charm_name_from_url_spec
    [of "''cs:~openstack/nova-compute-312''" "''nova-compute''" "''312''" "''cs:~openstack''"]
  from t have a: "extract_charm_name_from_url (Some ''cs:~openstack/nova-compute-312'')
     = Inr (extract_spec_order ''cs:~openstack/nova-compute-312'')"
    by (rule conjunct1)
  from t prem have b: "extract_charm_name_from_url (Some ''cs:~openstack/nova-compute-312'')
     = Inr ''nova-compute''"
    unfolding url by blast
  from a b have "extract_spec_order ''cs:~openstack/nova-compute-312'' = ''nova-compute''"
    by (metis sum.inject(2))
  with a b show ?thesis by blast
qed

text \<open>
  C9. Charm name extraction returns a name for every string, malformed URLs and the
  empty string included: splitting never yields an empty list, so \<open>[-1]\<close> cannot fail.
  It fails only when the URL is empty or \<open>None\<close>; of the two it is \<open>None\<close> that fails,
  with \<open>AttributeError\<close>.
\<close>

theorem extract_charm_name_from_url_total_on_strings:
  "(\<exists>name. extract_charm_name_from_url (Some url) = Inr name)
   \<and> (extract_charm_name_from_url charm_url = Inl e \<longrightarrow> charm_url = None \<or> charm_url = Some [])
   \<and> extract_charm_name_from_url None = Inl AttributeError"
proof (intro conjI impI)
  show "\<exists>name. extract_charm_name_from_url (Some url) = Inr name"
    by (simp add: extract_total)
  show "extract_charm_name_from_url None = Inl AttributeError"
    by (simp add: extract_charm_name_from_url_def)
next
  assume "extract_charm_name_from_url charm_url = Inl e"
  then have "charm_url = None"
    by (cases charm_url) (simp_all add: extract_total)
  then show "charm_url = None \<or> charm_url = Some []" ..
qed

theorem extract_charm_name_from_url_total_on_strings_witness:
  "(\<exists>name. extract_charm_name_from_url (Some ''::not//a-url-'') = Inr name)
   \<and> extract_charm_name_from_url (Some ''::not//a-url-'') = Inr ''a-url-''
   \<and> extract_charm_name_from_url (Some []) = Inr []
   \<and> extract_charm_name_from_url None = Inl AttributeError
   \<and> (None = (None :: string option) \<or> None = Some [])"
  using extract_charm_name_from_url_total_on_strings [of "''::not//a-url-''" None AttributeError]
  by (simp add: extract_charm_name_from_url_def py_last_def is_digit_def)

section \<open>Properties of the filters\<close>

text \<open>
  C10. The exclude-list filter excludes an application when its own name or its extracted
  charm name is on the exclude list (\<open>rabbitmq-server\<close>, \<open>percona-cluster\<close>), and only
  then: an application named differently from its charm is excluded if either name
  matches.
\<close>

theorem filter_openstack_upgrade_list_either_name:
  "charm_name_of cfg = Inr charm_name \<Longrightarrow>
     filter_openstack_upgrade_list app cfg model_name =
       Inr (app = ''rabbitmq-server'' \<or> app = ''percona-cluster''
            \<or> charm_name = ''rabbitmq-server'' \<or> charm_name = ''percona-cluster'')"
  by (auto simp: filter_openstack_upgrade_list_def UPGRADE_EXCLUDE_LIST_def)

theorem filter_openstack_upgrade_list_either_name_witness:
  "charm_name_of \<lparr>charm = Some (Some ''cs:rabbitmq-server-97''), subordinate_to = Some []\<rparr>
     = Inr ''rabbitmq-server''
   \<and> filter_openstack_upgrade_list ''mq''
       \<lparr>charm = Some (Some ''cs:rabbitmq-server-97''), subordinate_to = Some []\<rparr> None = Inr True"
proof -
  have n: "charm_name_of \<lparr>charm = Some (Some ''cs:rabbitmq-server-97''), subordinate_to = Some []\<rparr>
     = Inr ''rabbitmq-server''"
    by (simp add: charm_name_of_def extract_charm_name_from_url_def py_last_def is_digit_def)
  show ?thesis
    using n filter_openstack_upgrade_list_either_name [OF n, of "''mq''" None] by simp
qed

section \<open>Properties of the planner\<close>

lemma include_app_True_iff:
  "include_app app cfg filters mn = Inr True \<longleftrightarrow> (\<forall>f \<in> set filters. f app cfg mn = Inr False)"
  by (induction filters) (auto split: sum.splits)


lemma include_app_no_raise_True_iff:
  assumes "include_app app cfg filters mn = Inr b"
  shows "b \<longleftrightarrow> (\<forall>f \<in> set filters. f app cfg mn \<noteq> Inr True)"
  using assms
  by (induction filters arbitrary: b) (auto split: sum.splits if_splits)

lemma update_fresh: "k \<notin> fst ` set al \<Longrightarrow> AList.update k v al = al @ [(k, v)]"
  by (induction al) auto

lemma candidates_loop_Inr:
  assumes "distinct (map fst (acc @ apps))"
    and "\<forall>(app, cfg) \<in> set apps. \<exists>b. include_app app cfg filters mn = Inr b"
  shows "candidates_loop apps filters mn acc =
     Inr (acc @ filter (\<lambda>(app, cfg). include_app app cfg filters mn = Inr True) apps)"
  using assms
proof (induction apps arbitrary: acc)
  case Nil
  then show ?case by simp
next
  case (Cons a apps)
  obtain app cfg where a: "a = (app, cfg)" by (cases a)
  from Cons.prems(2) a obtain b where b: "include_app app cfg filters mn = Inr b" by auto
  from Cons.prems(1) a have fresh: "app \<notin> fst ` set acc" by auto
  show ?case
  proof (cases b)
    case True
    have "distinct (map fst ((acc @ [(app, cfg)]) @ apps))"
      using Cons.prems(1) a by simp
    moreover have "\<forall>(app, cfg) \<in> set apps. \<exists>b. include_app app cfg filters mn = Inr b"
      using Cons.prems(2) by simp
    ultimately have "candidates_loop apps filters mn (acc @ [(app, cfg)]) =
      Inr ((acc @ [(app, cfg)]) @ filter (\<lambda>(app, cfg). include_app app cfg filters mn = Inr True) apps)"
      by (rule Cons.IH)
    with True b a fresh show ?thesis by (simp add: update_fresh)
  next
    case False
    have "distinct (map fst (acc @ apps))"
      using Cons.prems(1) a by simp
    moreover have "\<forall>(app, cfg) \<in> set apps. \<exists>b. include_app app cfg filters mn = Inr b"
      using Cons.prems(2) by simp
    ultimately have "candidates_loop apps filters mn acc =
      Inr (acc @ filter (\<lambda>(app, cfg). include_app app cfg filters mn = Inr True) apps)"
      by (rule Cons.IH)
    with False b a show ?thesis by simp
  qed
qed

lemma get_upgrade_candidates_Inr:
  assumes "distinct (map fst (get_status mn))"
    and "\<forall>(app, cfg) \<in> set (get_status mn). \<exists>b. include_app app cfg filters mn = Inr b"
  shows "get_upgrade_candidates get_status mn (Some filters) =
     Inr (filter (\<lambda>(app, cfg). include_app app cfg filters mn = Inr True) (get_status mn))"
  using candidates_loop_Inr[of "[]" "get_status mn" filters mn] assms
  by (simp add: get_upgrade_candidates_def)

lemma collect_group_Inr:
  assumes "\<forall>(app, cfg) \<in> set apps. \<exists>n. charm_name_of cfg = Inr n"
  shows "collect_group charms apps =
     Inr (map fst (filter (\<lambda>(app, cfg). \<exists>n. charm_name_of cfg = Inr n \<and> n \<in> set charms) apps))"
  using assms
  by (induction apps) (auto split: sum.splits)

lemma named_groups_Inr:
  assumes "\<forall>(app, cfg) \<in> set apps. \<exists>n. charm_name_of cfg = Inr n"
  shows "named_groups sg apps =
     Inr (map (\<lambda>(name, charms). (name,
        map fst (filter (\<lambda>(app, cfg). \<exists>n. charm_name_of cfg = Inr n \<and> n \<in> set charms) apps))) sg)"
  using assms
  by (induction sg) (auto simp: collect_group_Inr split: sum.splits)

lemma phase_members_Nil: "phase_members charms [] = []"
  by (simp add: phase_members_def)

lemma phase_members_Cons:
  "phase_members charms ((app, cfg) # apps) =
     (if charm_in charms cfg then app # phase_members charms apps else phase_members charms apps)"
  by (simp add: phase_members_def)

lemma charm_in_Inr: "charm_name_of cfg = Inr n \<Longrightarrow> charm_in charms cfg = (n \<in> set charms)"
  by (simp add: charm_in_def)

lemma collect_group_members:
  assumes "\<forall>(app, cfg) \<in> set apps. \<exists>n. charm_name_of cfg = Inr n"
  shows "collect_group charms apps = Inr (phase_members charms apps)"
  using assms
proof (induction apps)
  case Nil
  then show ?case by (simp add: phase_members_Nil)
next
  case (Cons a apps)
  obtain app cfg where a: "a = (app, cfg)" by (cases a)
  from Cons.prems a obtain n where n: "charm_name_of cfg = Inr n" by auto
  from Cons.prems have "\<forall>(app, cfg) \<in> set apps. \<exists>n. charm_name_of cfg = Inr n" by simp
  then have IH: "collect_group charms apps = Inr (phase_members charms apps)"
    by (rule Cons.IH)
  show ?case
    unfolding a by (simp add: n IH phase_members_Cons charm_in_Inr[OF n])
qed

lemma named_groups_members:
  assumes "\<forall>(app, cfg) \<in> set apps. \<exists>n. charm_name_of cfg = Inr n"
  shows "named_groups phases apps =
     Inr (map (\<lambda>(name, charms). (name, phase_members charms apps)) phases)"
proof (induction phases)
  case Nil
  then show ?case by simp
next
  case (Cons p phases)
  obtain name charms where p: "p = (name, charms)" by (cases p)
  show ?case
    unfolding p by (simp add: collect_group_members[OF assms] Cons.IH)
qed

lemma set_phase_members:
  "set (phase_members charms apps) = {app. \<exists>cfg. (app, cfg) \<in> set apps \<and> charm_in charms cfg}"
  unfolding phase_members_def by force

lemma set_named_members:
  "set (concat (map snd (map (\<lambda>(name, charms). (name, phase_members charms apps)) phases)))
     = {app. \<exists>cfg. (app, cfg) \<in> set apps \<and> \<not> list_all (\<lambda>(name, charms). \<not> charm_in charms cfg) phases}"
proof (induction phases)
  case Nil
  then show ?case by simp
next
  case (Cons p phases)
  obtain name charms where p: "p = (name, charms)" by (cases p)
  show ?case
    unfolding p using Cons.IH by (auto simp: set_phase_members)
qed

lemma in_some_phase_iff:
  assumes "distinct (map fst apps)" "(app, cfg) \<in> set apps"
  shows "app \<in> set (concat (map snd (map (\<lambda>(name, charms). (name, phase_members charms apps)) phases)))
     \<longleftrightarrow> \<not> list_all (\<lambda>(name, charms). \<not> charm_in charms cfg) phases"
proof -
  have uniq: "\<And>cfg'. (app, cfg') \<in> set apps \<Longrightarrow> cfg' = cfg"
    using assms eq_key_imp_eq_value by fastforce
  show ?thesis
    unfolding set_named_members using assms(2) uniq by blast
qed

lemma sweep_up_unmatched:
  assumes "distinct (map fst apps)"
  shows "filter (\<lambda>app. app \<notin> set (concat (map snd
            (map (\<lambda>(name, charms). (name, phase_members charms apps)) phases))))
          (map fst apps)
       = unmatched_members phases apps"
proof -
  let ?vals = "set (concat (map snd
            (map (\<lambda>(name, charms). (name, phase_members charms apps)) phases)))"
  have "filter (\<lambda>x. fst x \<notin> ?vals) apps
      = filter (\<lambda>(app, cfg). list_all (\<lambda>(name, charms). \<not> charm_in charms cfg) phases) apps"
  proof (rule filter_cong)
    fix x assume x: "x \<in> set apps"
    obtain app cfg where xe: "x = (app, cfg)" by (cases x)
    show "(fst x \<notin> ?vals) =
       (case x of (app, cfg) \<Rightarrow> list_all (\<lambda>(name, charms). \<not> charm_in charms cfg) phases)"
      using in_some_phase_iff[OF assms, of app cfg phases] x unfolding xe by simp
  qed simp
  then show ?thesis
    by (simp add: unmatched_members_def filter_map comp_def)
qed

lemma build_service_groups_Inr:
  assumes "distinct (map fst apps)"
    and "\<forall>(app, cfg) \<in> set apps. \<exists>n. charm_name_of cfg = Inr n"
  shows "build_service_groups apps =
     Inr (map (\<lambda>(name, charms). (name, sort (phase_members charms apps))) SERVICE_GROUPS
          @ [(''sweep_up'', sort (unmatched_members SERVICE_GROUPS apps))])"
proof -
  have "named_groups SERVICE_GROUPS apps =
     Inr (map (\<lambda>(name, charms). (name, phase_members charms apps)) SERVICE_GROUPS)"
    by (rule named_groups_members[OF assms(2)])
  moreover have "map (\<lambda>(name, grp). (name, sort grp))
       (map (\<lambda>(name, charms). (name, phase_members charms apps)) SERVICE_GROUPS)
     = map (\<lambda>(name, charms). (name, sort (phase_members charms apps))) SERVICE_GROUPS"
    by (simp add: case_prod_beta)
  ultimately show ?thesis
    unfolding build_service_groups_def
    by (simp only: sum.case Let_def sweep_up_unmatched[OF assms(1)] map_append list.map prod.case)
qed



lemma set_unmatched_members:
  "set (unmatched_members phases apps) =
     {app. \<exists>cfg. (app, cfg) \<in> set apps \<and> list_all (\<lambda>(name, charms). \<not> charm_in charms cfg) phases}"
  unfolding unmatched_members_def by force










lemma SERVICE_GROUPS_names:
  "map fst SERVICE_GROUPS =
     [''Database Services'', ''Stateful Services'', ''Core Identity'', ''Control Plane'',
      ''Data Plane'']"
  by (simp add: SERVICE_GROUPS_def)

lemma survivors_charm_names:
  assumes "\<forall>(app, cfg) \<in> set apps.
      include_app app cfg filters mn = Inr True \<longrightarrow> (\<exists>n. charm_name_of cfg = Inr n)"
  shows "\<forall>(app, cfg) \<in> set (survivors apps filters mn). \<exists>n. charm_name_of cfg = Inr n"
  using assms unfolding survivors_def by auto

lemma distinct_survivors:
  "distinct (map fst apps) \<Longrightarrow> distinct (map fst (survivors apps filters mn))"
  unfolding survivors_def by (rule distinct_map_filter)

lemma plan_groups_Inr:
  assumes "distinct (map fst (get_status mn))"
    and "\<forall>(app, cfg) \<in> set (get_status mn). \<exists>b. include_app app cfg filters mn = Inr b"
    and "\<forall>(app, cfg) \<in> set (get_status mn).
      include_app app cfg filters mn = Inr True \<longrightarrow> (\<exists>n. charm_name_of cfg = Inr n)"
  shows "plan_groups get_status mn filters =
     Inr (map (\<lambda>(name, charms).
                (name, sort (phase_members charms (survivors (get_status mn) filters mn))))
            SERVICE_GROUPS
          @ [(''sweep_up'',
              sort (unmatched_members SERVICE_GROUPS (survivors (get_status mn) filters mn)))])"
proof -
  have "get_upgrade_candidates get_status mn (Some filters)
      = Inr (survivors (get_status mn) filters mn)"
    unfolding survivors_def
    by (rule get_upgrade_candidates_Inr[of get_status mn filters, OF assms(1) assms(2)])
  then show ?thesis
    unfolding plan_groups_def
    by (simp add: build_service_groups_Inr[OF distinct_survivors[OF assms(1)]
          survivors_charm_names[OF assms(3)]])
qed


lemma example_distinct: "distinct (map fst example_applications)"
  by (simp add: example_applications_def)

lemma example_charm_names:
  "\<forall>(app, cfg) \<in> set example_applications. \<exists>n. charm_name_of cfg = Inr n"
  by (simp add: example_applications_def charm_name_of_def extract_charm_name_from_url_def
      py_last_def is_digit_def)

lemma example_subordinates:
  "\<forall>(app, cfg) \<in> set example_applications.
     \<exists>b. include_app app cfg [filter_subordinates] None = Inr b"
  by (auto simp: example_applications_def filter_subordinates_def)



lemma charm_in_iff:
  "charm_in charms cfg \<longleftrightarrow> (\<exists>n. charm_name_of cfg = Inr n \<and> n \<in> set charms)"
  by (auto simp: charm_in_def split: sum.splits)

lemma set_phase_members_names:
  "set (phase_members charms apps) =
     {app. \<exists>cfg n. (app, cfg) \<in> set apps \<and> charm_name_of cfg = Inr n \<and> n \<in> set charms}"
  unfolding set_phase_members charm_in_iff by blast

lemma set_unmatched_members_names:
  assumes "\<forall>(app, cfg) \<in> set apps. \<exists>n. charm_name_of cfg = Inr n"
  shows "set (unmatched_members phases apps) =
     {app. \<exists>cfg n. (app, cfg) \<in> set apps \<and> charm_name_of cfg = Inr n
            \<and> (\<forall>(name, charms) \<in> set phases. n \<notin> set charms)}"
proof -
  have "\<And>app cfg. (app, cfg) \<in> set apps \<Longrightarrow>
      list_all (\<lambda>(name, charms). \<not> charm_in charms cfg) phases
      = (\<exists>n. charm_name_of cfg = Inr n \<and> (\<forall>(name, charms) \<in> set phases. n \<notin> set charms))"
  proof -
    fix app cfg assume "(app, cfg) \<in> set apps"
    with assms obtain n where n: "charm_name_of cfg = Inr n" by auto
    show "list_all (\<lambda>(name, charms). \<not> charm_in charms cfg) phases
      = (\<exists>n. charm_name_of cfg = Inr n \<and> (\<forall>(name, charms) \<in> set phases. n \<notin> set charms))"
      by (simp add: list_all_iff charm_in_Inr[OF n] n case_prod_beta)
  qed
  then show ?thesis
    unfolding set_unmatched_members by blast
qed

lemma map_fst_groups:
  "map fst (map (\<lambda>(name, charms). (name, f charms)) phases @ [(sweep, X)])
     = map fst phases @ [sweep]"
  by (induction phases) auto

lemma set_survivors_pairs:
  assumes "\<forall>(app, cfg) \<in> set apps. \<exists>b. include_app app cfg filters mn = Inr b"
  shows "set (survivors apps filters mn) =
      {(app, cfg). (app, cfg) \<in> set apps \<and> (\<forall>f \<in> set filters. f app cfg mn \<noteq> Inr True)}"
proof -
  have "\<And>app cfg. (app, cfg) \<in> set apps \<Longrightarrow>
      (include_app app cfg filters mn = Inr True) = (\<forall>f \<in> set filters. f app cfg mn \<noteq> Inr True)"
  proof -
    fix app cfg assume "(app, cfg) \<in> set apps"
    with assms obtain b where b: "include_app app cfg filters mn = Inr b" by auto
    from include_app_no_raise_True_iff[OF b] b
    show "(include_app app cfg filters mn = Inr True) = (\<forall>f \<in> set filters. f app cfg mn \<noteq> Inr True)"
      by simp
  qed
  then show ?thesis
    unfolding survivors_def by auto
qed

lemma plan_groups_empty:
  "plan_groups (\<lambda>_. []) mn filters =
     Inr [(''Database Services'', []), (''Stateful Services'', []), (''Core Identity'', []),
          (''Control Plane'', []), (''Data Plane'', []), (''sweep_up'', [])]"
  by (simp add: plan_groups_def get_upgrade_candidates_def build_service_groups_def
      SERVICE_GROUPS_def)

text \<open>
  C6. Under the same conditions the planner's result is the fixed sequence of phases
  Database Services, Stateful Services, Core Identity, Control Plane, Data Plane, followed
  by \<open>sweep_up\<close>. Each named phase holds, sorted, the surviving applications whose
  extracted charm name is in the phase's charm list; \<open>sweep_up\<close> holds the surviving
  applications whose charm name is in no phase's list. All six groups are in the result
  also when they are empty, as for a status without applications.
\<close>

theorem plan_groups_phases:
  assumes "distinct (map fst (get_status mn))"
    and "\<forall>(app, cfg) \<in> set (get_status mn). \<exists>b. include_app app cfg filters mn = Inr b"
    and "\<forall>(app, cfg) \<in> set (get_status mn).
      include_app app cfg filters mn = Inr True \<longrightarrow> (\<exists>n. charm_name_of cfg = Inr n)"
  shows "\<exists>groups kept.
       kept = survivors (get_status mn) filters mn
     \<and> plan_groups get_status mn filters = Inr groups
     \<and> map fst groups =
         [''Database Services'', ''Stateful Services'', ''Core Identity'', ''Control Plane'',
          ''Data Plane'', ''sweep_up'']
     \<and> groups =
         map (\<lambda>(name, charms). (name, sort (phase_members charms kept))) SERVICE_GROUPS
         @ [(''sweep_up'', sort (unmatched_members SERVICE_GROUPS kept))]
     \<and> (\<forall>charms. set (phase_members charms kept) =
           {app. \<exists>cfg n. (app, cfg) \<in> set kept \<and> charm_name_of cfg = Inr n \<and> n \<in> set charms})
     \<and> set (unmatched_members SERVICE_GROUPS kept) =
           {app. \<exists>cfg n. (app, cfg) \<in> set kept \<and> charm_name_of cfg = Inr n
                  \<and> (\<forall>(name, charms) \<in> set SERVICE_GROUPS. n \<notin> set charms)}
     \<and> set kept =
           {(app, cfg). (app, cfg) \<in> set (get_status mn)
                  \<and> (\<forall>f \<in> set filters. f app cfg mn \<noteq> Inr True)}
     \<and> plan_groups (\<lambda>_. []) mn filters =
         Inr [(''Database Services'', []), (''Stateful Services'', []), (''Core Identity'', []),
              (''Control Plane'', []), (''Data Plane'', []), (''sweep_up'', [])]"
proof -
  let ?S = "survivors (get_status mn) filters mn"
  let ?G = "map (\<lambda>(name, charms). (name, sort (phase_members charms ?S))) SERVICE_GROUPS
          @ [(''sweep_up'', sort (unmatched_members SERVICE_GROUPS ?S))]"
  have 1: "plan_groups get_status mn filters = Inr ?G"
    by (rule plan_groups_Inr[of get_status mn filters, OF assms(1) assms(2) assms(3)])
  have 2: "map fst ?G =
         [''Database Services'', ''Stateful Services'', ''Core Identity'', ''Control Plane'',
          ''Data Plane'', ''sweep_up'']"
    unfolding map_fst_groups SERVICE_GROUPS_names by simp
  have 3: "\<forall>charms. set (phase_members charms ?S) =
           {app. \<exists>cfg n. (app, cfg) \<in> set ?S \<and> charm_name_of cfg = Inr n \<and> n \<in> set charms}"
    by (intro allI set_phase_members_names)
  have 4: "set (unmatched_members SERVICE_GROUPS ?S) =
           {app. \<exists>cfg n. (app, cfg) \<in> set ?S \<and> charm_name_of cfg = Inr n
                  \<and> (\<forall>(name, charms) \<in> set SERVICE_GROUPS. n \<notin> set charms)}"
    by (rule set_unmatched_members_names[OF survivors_charm_names[OF assms(3)]])
  have 5: "set ?S = {(app, cfg). (app, cfg) \<in> set (get_status mn)
                  \<and> (\<forall>f \<in> set filters. f app cfg mn \<noteq> Inr True)}"
    by (rule set_survivors_pairs[OF assms(2)])
  show ?thesis
    by (rule exI[of _ ?G], rule exI[of _ ?S]) (intro conjI refl 1 2 3 4 5 plan_groups_empty)
qed

theorem plan_groups_phases_witness:
  "(\<exists>groups kept.
       kept = survivors ((\<lambda>_. example_applications) None) [filter_subordinates] None
     \<and> plan_groups (\<lambda>_. example_applications) None [filter_subordinates] = Inr groups
     \<and> map fst groups =
         [''Database Services'', ''Stateful Services'', ''Core Identity'', ''Control Plane'',
          ''Data Plane'', ''sweep_up'']
     \<and> groups =
         map (\<lambda>(name, charms). (name, sort (phase_members charms kept))) SERVICE_GROUPS
         @ [(''sweep_up'', sort (unmatched_members SERVICE_GROUPS kept))]
     \<and> (\<forall>charms. set (phase_members charms kept) =
           {app. \<exists>cfg n. (app, cfg) \<in> set kept \<and> charm_name_of cfg = Inr n \<and> n \<in> set charms})
     \<and> set (unmatched_members SERVICE_GROUPS kept) =
           {app. \<exists>cfg n. (app, cfg) \<in> set kept \<and> charm_name_of cfg = Inr n
                  \<and> (\<forall>(name, charms) \<in> set SERVICE_GROUPS. n \<notin> set charms)}
     \<and> set kept =
           {(app, cfg). (app, cfg) \<in> set ((\<lambda>_. example_applications) None)
                  \<and> (\<forall>f \<in> set [filter_subordinates]. f app cfg None \<noteq> Inr True)}
     \<and> plan_groups (\<lambda>_. []) None [filter_subordinates] =
         Inr [(''Database Services'', []), (''Stateful Services'', []), (''Core Identity'', []),
              (''Control Plane'', []), (''Data Plane'', []), (''sweep_up'', [])])
   \<and> plan_groups (\<lambda>_. example_applications) None [filter_subordinates] =
     Inr [(''Database Services'', [''db'']),
          (''Stateful Services'', []),
          (''Core Identity'', [''keystone'']),
          (''Control Plane'', [''cinder'', ''glance'']),
          (''Data Plane'', [''nova'']),
          (''sweep_up'', [''zebra''])]"
proof -
  have h3: "\<forall>(app, cfg) \<in> set example_applications.
      include_app app cfg [filter_subordinates] None = Inr True
      \<longrightarrow> (\<exists>n. charm_name_of cfg = Inr n)"
    using example_charm_names by blast
  have ev: "plan_groups (\<lambda>_. example_applications) None [filter_subordinates] =
     Inr [(''Database Services'', [''db'']),
          (''Stateful Services'', []),
          (''Core Identity'', [''keystone'']),
          (''Control Plane'', [''cinder'', ''glance'']),
          (''Data Plane'', [''nova'']),
          (''sweep_up'', [''zebra''])]"
    by code_simp
  note t = plan_groups_phases
    [of "\<lambda>_. example_applications" None "[filter_subordinates]",
     OF example_distinct example_subordinates h3]
  show ?thesis
    by (rule conjI[OF t ev])
qed

section \<open>Properties of the entry points\<close>

lemma apply_extra_filters_append:
  "apply_extra_filters filters extra =
     (case apply_extra_filters [] extra of Inl e \<Rightarrow> Inl e | Inr added \<Rightarrow> Inr (filters @ added))"
  by (cases extra) (simp_all add: apply_extra_filters_def)

text \<open>
  C8. Full-upgrade planning installs, before any extra filters, exactly the chain
  \<open>_filter_subordinates\<close>, \<open>_filter_openstack_upgrade_list\<close>,
  \<open>_filter_non_openstack_services\<close>, in this order; series-upgrade planning installs
  \<open>_filter_subordinates\<close> only, and charm-upgrade planning installs none. The first
  filter excludes the applications with a non-empty \<open>subordinate-to\<close> list, the second
  those whose name or charm name is \<open>rabbitmq-server\<close> or \<open>percona-cluster\<close>, the third
  those whose configuration has neither an \<open>openstack-origin\<close> nor a \<open>source\<close> option.
\<close>

theorem default_filter_chains:
  "get_upgrade_groups get_status get_application_config mn extra =
     (case apply_extra_filters [] extra of
        Inl e \<Rightarrow> Inl e
      | Inr added \<Rightarrow>
          plan_groups get_status mn
            ([filter_subordinates,
              filter_openstack_upgrade_list,
              filter_non_openstack_services get_application_config] @ added))
   \<and> get_series_upgrade_groups get_status mn extra =
     (case apply_extra_filters [] extra of
        Inl e \<Rightarrow> Inl e
      | Inr added \<Rightarrow> plan_groups get_status mn ([filter_subordinates] @ added))
   \<and> get_charm_upgrade_groups get_status mn extra =
     (case apply_extra_filters [] extra of
        Inl e \<Rightarrow> Inl e
      | Inr added \<Rightarrow> plan_groups get_status mn added)
   \<and> filter_subordinates app cfg mn =
       Inr (\<exists>subs. subordinate_to cfg = Some subs \<and> subs \<noteq> [])
   \<and> (charm_name_of cfg = Inr charm_name \<longrightarrow>
        filter_openstack_upgrade_list app cfg mn =
          Inr (app \<in> set [''rabbitmq-server'', ''percona-cluster'']
               \<or> charm_name \<in> set [''rabbitmq-server'', ''percona-cluster'']))
   \<and> filter_non_openstack_services get_application_config app cfg mn =
       Inr (''openstack-origin'' \<notin> set (get_application_config app mn)
            \<and> ''source'' \<notin> set (get_application_config app mn))"
proof (intro conjI impI)
  show "get_upgrade_groups get_status get_application_config mn extra =
     (case apply_extra_filters [] extra of
        Inl e \<Rightarrow> Inl e
      | Inr added \<Rightarrow>
          plan_groups get_status mn
            ([filter_subordinates,
              filter_openstack_upgrade_list,
              filter_non_openstack_services get_application_config] @ added))"
    unfolding get_upgrade_groups_def
    by (subst apply_extra_filters_append) (simp split: sum.splits)
  show "get_series_upgrade_groups get_status mn extra =
     (case apply_extra_filters [] extra of
        Inl e \<Rightarrow> Inl e
      | Inr added \<Rightarrow> plan_groups get_status mn ([filter_subordinates] @ added))"
    unfolding get_series_upgrade_groups_def
    by (subst apply_extra_filters_append) (simp split: sum.splits)
  show "get_charm_upgrade_groups get_status mn extra =
     (case apply_extra_filters [] extra of
        Inl e \<Rightarrow> Inl e
      | Inr added \<Rightarrow> plan_groups get_status mn added)"
    unfolding get_charm_upgrade_groups_def by simp
  show "filter_subordinates app cfg mn =
       Inr (\<exists>subs. subordinate_to cfg = Some subs \<and> subs \<noteq> [])"
    by (simp add: filter_subordinates_def split: option.splits)
  show "filter_non_openstack_services get_application_config app cfg mn =
       Inr (''openstack-origin'' \<notin> set (get_application_config app mn)
            \<and> ''source'' \<notin> set (get_application_config app mn))"
    by (simp add: filter_non_openstack_services_def Let_def)
next
  assume "charm_name_of cfg = Inr charm_name"
  then show "filter_openstack_upgrade_list app cfg mn =
          Inr (app \<in> set [''rabbitmq-server'', ''percona-cluster'']
               \<or> charm_name \<in> set [''rabbitmq-server'', ''percona-cluster''])"
    by (simp add: filter_openstack_upgrade_list_def UPGRADE_EXCLUDE_LIST_def)
qed


theorem default_filter_chains_witness:
  "charm_name_of \<lparr>charm = Some (Some ''cs:percona-cluster-3''), subordinate_to = Some []\<rparr>
     = Inr ''percona-cluster''
   \<and> filter_openstack_upgrade_list ''db''
       \<lparr>charm = Some (Some ''cs:percona-cluster-3''), subordinate_to = Some []\<rparr> None = Inr True
   \<and> get_upgrade_groups (\<lambda>_. example_applications)
       (\<lambda>app _. if app = ''zebra'' then [''debug''] else [''debug'', ''openstack-origin''])
       None PyNone =
     Inr [(''Database Services'', []),
          (''Stateful Services'', []),
          (''Core Identity'', [''keystone'']),
          (''Control Plane'', [''cinder'', ''glance'']),
          (''Data Plane'', [''nova'']),
          (''sweep_up'', [])]
   \<and> get_series_upgrade_groups (\<lambda>_. example_applications) None PyNone =
     Inr [(''Database Services'', [''db'']),
          (''Stateful Services'', []),
          (''Core Identity'', [''keystone'']),
          (''Control Plane'', [''cinder'', ''glance'']),
          (''Data Plane'', [''nova'']),
          (''sweep_up'', [''zebra''])]
   \<and> get_charm_upgrade_groups (\<lambda>_. example_applications) None PyNone =
     Inr [(''Database Services'', [''db'']),
          (''Stateful Services'', []),
          (''Core Identity'', [''keystone'']),
          (''Control Plane'', [''cinder'', ''glance'']),
          (''Data Plane'', [''nova'']),
          (''sweep_up'', [''ntp'', ''zebra''])]"
proof -
  let ?cfg = "\<lparr>charm = Some (Some ''cs:percona-cluster-3''), subordinate_to = Some []\<rparr>"
  let ?gc = "\<lambda>(app :: string) (_ :: string option).
      if app = ''zebra'' then [''debug''] else [''debug'', ''openstack-origin'']"
  have n: "charm_name_of ?cfg = Inr ''percona-cluster''"
    by (simp add: charm_name_of_def extract_charm_name_from_url_def py_last_def is_digit_def)
  note t = default_filter_chains
    [of "\<lambda>_. example_applications" ?gc None PyNone "''db''" ?cfg "''percona-cluster''"]
  from t n have f: "filter_openstack_upgrade_list ''db'' ?cfg None = Inr True"
    by simp
  have full: "plan_groups (\<lambda>_. example_applications) None
      [filter_subordinates, filter_openstack_upgrade_list, filter_non_openstack_services ?gc] =
     Inr [(''Database Services'', []),
          (''Stateful Services'', []),
          (''Core Identity'', [''keystone'']),
          (''Control Plane'', [''cinder'', ''glance'']),
          (''Data Plane'', [''nova'']),
          (''sweep_up'', [])]"
    by code_simp
  have series: "plan_groups (\<lambda>_. example_applications) None [filter_subordinates] =
     Inr [(''Database Services'', [''db'']),
          (''Stateful Services'', []),
          (''Core Identity'', [''keystone'']),
          (''Control Plane'', [''cinder'', ''glance'']),
          (''Data Plane'', [''nova'']),
          (''sweep_up'', [''zebra''])]"
    by code_simp
  have charm: "plan_groups (\<lambda>_. example_applications) None [] =
     Inr [(''Database Services'', [''db'']),
          (''Stateful Services'', []),
          (''Core Identity'', [''keystone'']),
          (''Control Plane'', [''cinder'', ''glance'']),
          (''Data Plane'', [''nova'']),
          (''sweep_up'', [''ntp'', ''zebra''])]"
    by code_simp
  have none: "apply_extra_filters [] PyNone = Inr []"
    by (simp add: apply_extra_filters_def)
  from t have "get_upgrade_groups (\<lambda>_. example_applications) ?gc None PyNone =
      plan_groups (\<lambda>_. example_applications) None
      [filter_subordinates, filter_openstack_upgrade_list, filter_non_openstack_services ?gc]"
    and "get_series_upgrade_groups (\<lambda>_. example_applications) None PyNone =
      plan_groups (\<lambda>_. example_applications) None [filter_subordinates]"
    and "get_charm_upgrade_groups (\<lambda>_. example_applications) None PyNone =
      plan_groups (\<lambda>_. example_applications) None []"
    by (simp_all add: none)
  with n f full series charm show ?thesis
    by (simp only: simp_thms)
qed

text \<open>
  C5. For each of the three entry points, a list passed as \<open>extra_filters\<close> is appended
  element by element after the default chain, a single callable is appended as one filter,
  and any other truthy value makes the call fail with \<open>RuntimeError\<close> before the status is
  read.
\<close>

theorem extra_filters_appended:
  "apply_extra_filters filters (PyList extra) = Inr (filters @ extra)
   \<and> apply_extra_filters filters (PyCallable f) = Inr (filters @ [f])
   \<and> apply_extra_filters filters (PyOther True) = Inl RuntimeError
   \<and> get_upgrade_groups get_status get_application_config mn (PyList extra) =
       plan_groups get_status mn
         ([filter_subordinates, filter_openstack_upgrade_list,
           filter_non_openstack_services get_application_config] @ extra)
   \<and> get_upgrade_groups get_status get_application_config mn (PyCallable f) =
       plan_groups get_status mn
         ([filter_subordinates, filter_openstack_upgrade_list,
           filter_non_openstack_services get_application_config] @ [f])
   \<and> get_upgrade_groups get_status get_application_config mn (PyOther True) = Inl RuntimeError
   \<and> get_series_upgrade_groups get_status mn (PyList extra) =
       plan_groups get_status mn ([filter_subordinates] @ extra)
   \<and> get_series_upgrade_groups get_status mn (PyCallable f) =
       plan_groups get_status mn ([filter_subordinates] @ [f])
   \<and> get_series_upgrade_groups get_status mn (PyOther True) = Inl RuntimeError
   \<and> get_charm_upgrade_groups get_status mn (PyList extra) = plan_groups get_status mn extra
   \<and> get_charm_upgrade_groups get_status mn (PyCallable f) = plan_groups get_status mn [f]
   \<and> get_charm_upgrade_groups get_status mn (PyOther True) = Inl RuntimeError"
  by (simp add: apply_extra_filters_def get_upgrade_groups_def get_series_upgrade_groups_def
      get_charm_upgrade_groups_def)


theorem extra_filters_appended_witness:
  "get_upgrade_groups (\<lambda>_. example_applications) (\<lambda>_ _. [''source'']) None (PyOther True)
     = Inl RuntimeError
   \<and> get_series_upgrade_groups (\<lambda>_. example_applications) None (PyOther True) = Inl RuntimeError
   \<and> get_charm_upgrade_groups (\<lambda>_. example_applications) None (PyOther True) = Inl RuntimeError
   \<and> get_charm_upgrade_groups (\<lambda>_. example_applications) None (PyCallable filter_subordinates)
     = plan_groups (\<lambda>_. example_applications) None [filter_subordinates]
   \<and> get_charm_upgrade_groups (\<lambda>_. example_applications) None
       (PyList [filter_subordinates, filter_openstack_upgrade_list])
     = plan_groups (\<lambda>_. example_applications) None
         [filter_subordinates, filter_openstack_upgrade_list]
   \<and> get_series_upgrade_groups (\<lambda>_. example_applications) None
       (PyList [filter_subordinates, filter_openstack_upgrade_list])
     = plan_groups (\<lambda>_. example_applications) None
         [filter_subordinates, filter_subordinates, filter_openstack_upgrade_list]
   \<and> plan_groups (\<lambda>_. example_applications) None
         [filter_subordinates, filter_subordinates, filter_openstack_upgrade_list]
     = Inr [(''Database Services'', []),
          (''Stateful Services'', []),
          (''Core Identity'', [''keystone'']),
          (''Control Plane'', [''cinder'', ''glance'']),
          (''Data Plane'', [''nova'']),
          (''sweep_up'', [''zebra''])]"
proof -
  note t = extra_filters_appended
    [of "[]" "[filter_subordinates, filter_openstack_upgrade_list]" filter_subordinates
        "\<lambda>_. example_applications" "\<lambda>_ _. [''source'']" None]
  have ev: "plan_groups (\<lambda>_. example_applications) None
         [filter_subordinates, filter_subordinates, filter_openstack_upgrade_list]
     = Inr [(''Database Services'', []),
          (''Stateful Services'', []),
          (''Core Identity'', [''keystone'']),
          (''Control Plane'', [''cinder'', ''glance'']),
          (''Data Plane'', [''nova'']),
          (''sweep_up'', [''zebra''])]"
    by code_simp
  from t ev show ?thesis
    by (simp only: append.simps simp_thms)
qed

section \<open>Properties of the validator and of process-id discovery\<close>

lemma find_Some_set: "find P xs = Some x \<Longrightarrow> x \<in> set xs \<and> P x"
  by (induction xs) (auto split: if_splits)

lemma units_find:
  "(find (\<lambda>u. map_of actual u = None) (map fst expected) = None) = units_found expected actual"
  unfolding units_found_def by (induction expected) auto

lemma name_counts_find_iff:
  "(find (\<lambda>(u, procs). length procs \<noteq> length (actual_procs actual u)) expected = None)
     = process_name_counts_ok expected actual"
  unfolding process_name_counts_ok_def by (induction expected) auto

lemma names_find_list:
  "(find (\<lambda>(u, p, e). map_of (actual_procs actual u) p = None) xs = None)
     = list_all (\<lambda>(u, p, e). map_of (actual_procs actual u) p \<noteq> None) xs"
  by (induction xs) auto

lemma names_find_iff:
  "(find (\<lambda>(u, p, e). map_of (actual_procs actual u) p = None) (expected_entries expected) = None)
     = process_names_found expected actual"
  unfolding process_names_found_def by (rule names_find_list)

lemma pids_find_list:
  "(find (\<lambda>(u, p, e). \<not> pid_count_ok e (actual_pids actual u p)) xs = None)
     = list_all (\<lambda>(u, p, e). pid_count_ok e (actual_pids actual u p)) xs"
  by (induction xs) auto

lemma pids_find_iff:
  "(find (\<lambda>(u, p, e). \<not> pid_count_ok e (actual_pids actual u p)) (expected_entries expected) = None)
     = pid_counts_ok expected actual"
  unfolding pid_counts_ok_def by (rule pids_find_list)

lemma validate_unit_count:
  "\<not> unit_count_ok expected actual \<Longrightarrow>
     validate_unit_process_ids expected actual = Inl UnitCountMismatch"
  by (simp add: validate_unit_process_ids_def unit_count_ok_def)

lemma validate_unit_not_found:
  assumes "unit_count_ok expected actual" "\<not> units_found expected actual"
  shows "\<exists>u. validate_unit_process_ids expected actual = Inl (UnitNotFound u)
     \<and> u \<in> fst ` set expected \<and> map_of actual u = None"
proof -
  from assms(2) obtain u where u: "find (\<lambda>u. map_of actual u = None) (map fst expected) = Some u"
    using units_find[of actual expected] by fastforce
  from find_Some_set[OF u] have "u \<in> fst ` set expected" "map_of actual u = None" by auto
  moreover have "validate_unit_process_ids expected actual = Inl (UnitNotFound u)"
    using assms(1) u by (simp add: validate_unit_process_ids_def unit_count_ok_def)
  ultimately show ?thesis by blast
qed

lemma validate_name_count:
  assumes "unit_count_ok expected actual" "units_found expected actual"
    "\<not> process_name_counts_ok expected actual"
  shows "validate_unit_process_ids expected actual = Inl ProcessNameCountMismatch"
proof -
  from assms(2) have 2: "find (\<lambda>u. map_of actual u = None) (map fst expected) = None"
    by (simp add: units_find)
  from assms(3) obtain x where
    "find (\<lambda>(u, procs). length procs \<noteq> length (actual_procs actual u)) expected = Some x"
    using name_counts_find_iff[of actual expected] by fastforce
  with assms(1) 2 show ?thesis
    by (simp add: validate_unit_process_ids_def unit_count_ok_def)
qed

lemma validate_name_mismatch:
  assumes "unit_count_ok expected actual" "units_found expected actual"
    "process_name_counts_ok expected actual" "\<not> process_names_found expected actual"
  shows "\<exists>u p e. validate_unit_process_ids expected actual = Inl (ProcessNameMismatch p)
     \<and> (u, p, e) \<in> set (expected_entries expected) \<and> map_of (actual_procs actual u) p = None"
proof -
  from assms(2) have 2: "find (\<lambda>u. map_of actual u = None) (map fst expected) = None"
    by (simp add: units_find)
  from assms(3) have 3:
    "find (\<lambda>(u, procs). length procs \<noteq> length (actual_procs actual u)) expected = None"
    by (simp add: name_counts_find_iff)
  from assms(4) obtain x where
    x: "find (\<lambda>(u, p, e). map_of (actual_procs actual u) p = None) (expected_entries expected)
        = Some x"
    using names_find_iff[of actual expected] by fastforce
  obtain u p e where xe: "x = (u, p, e)" by (cases x)
  from find_Some_set[OF x] xe have "(u, p, e) \<in> set (expected_entries expected)"
    "map_of (actual_procs actual u) p = None" by auto
  moreover have "validate_unit_process_ids expected actual = Inl (ProcessNameMismatch p)"
    using assms(1) 2 3 x xe by (simp add: validate_unit_process_ids_def unit_count_ok_def)
  ultimately show ?thesis by blast
qed

lemma validate_pid_count:
  assumes "unit_count_ok expected actual" "units_found expected actual"
    "process_name_counts_ok expected actual" "process_names_found expected actual"
    "\<not> pid_counts_ok expected actual"
  shows "\<exists>u p e. validate_unit_process_ids expected actual
        = Inl (PIDCountMismatch u p e (length (actual_pids actual u p)))
     \<and> (u, p, e) \<in> set (expected_entries expected) \<and> \<not> pid_count_ok e (actual_pids actual u p)"
proof -
  from assms(2) have 2: "find (\<lambda>u. map_of actual u = None) (map fst expected) = None"
    by (simp add: units_find)
  from assms(3) have 3:
    "find (\<lambda>(u, procs). length procs \<noteq> length (actual_procs actual u)) expected = None"
    by (simp add: name_counts_find_iff)
  from assms(4) have 4:
    "find (\<lambda>(u, p, e). map_of (actual_procs actual u) p = None) (expected_entries expected) = None"
    by (simp add: names_find_iff)
  from assms(5) obtain x where
    x: "find (\<lambda>(u, p, e). \<not> pid_count_ok e (actual_pids actual u p)) (expected_entries expected)
        = Some x"
    using pids_find_iff[of actual expected] by fastforce
  obtain u p e where xe: "x = (u, p, e)" by (cases x)
  from find_Some_set[OF x] xe have "(u, p, e) \<in> set (expected_entries expected)"
    "\<not> pid_count_ok e (actual_pids actual u p)" by auto
  moreover have "validate_unit_process_ids expected actual
      = Inl (PIDCountMismatch u p e (length (actual_pids actual u p)))"
    using assms(1) 2 3 4 x xe by (simp add: validate_unit_process_ids_def unit_count_ok_def)
  ultimately show ?thesis by blast
qed

lemma validate_all_ok:
  assumes "unit_count_ok expected actual" "units_found expected actual"
    "process_name_counts_ok expected actual" "process_names_found expected actual"
    "pid_counts_ok expected actual"
  shows "validate_unit_process_ids expected actual = Inr True"
proof -
  from assms(2) have 2: "find (\<lambda>u. map_of actual u = None) (map fst expected) = None"
    by (simp add: units_find)
  from assms(3) have 3:
    "find (\<lambda>(u, procs). length procs \<noteq> length (actual_procs actual u)) expected = None"
    by (simp add: name_counts_find_iff)
  from assms(4) have 4:
    "find (\<lambda>(u, p, e). map_of (actual_procs actual u) p = None) (expected_entries expected) = None"
    by (simp add: names_find_iff)
  from assms(5) have 5:
    "find (\<lambda>(u, p, e). \<not> pid_count_ok e (actual_pids actual u p)) (expected_entries expected)
        = None"
    by (simp add: pids_find_iff)
  show ?thesis
    using assms(1) 2 3 4 5 by (simp add: validate_unit_process_ids_def unit_count_ok_def)
qed

text \<open>
  C2. The validator makes its checks in the order (1) unit count, (2) every expected unit
  present, (3) process-name count of every unit, (4) every expected process name present,
  (5) PID count of every unit and process. The first check that fails gives the error:
  \<open>UnitCountMismatch\<close>, \<open>UnitNotFound\<close>, \<open>ProcessNameCountMismatch\<close>,
  \<open>ProcessNameMismatch\<close>, \<open>PIDCountMismatch\<close>. The result is true if and only if all five
  checks pass for all units and processes.
\<close>

theorem validate_unit_process_ids_order:
  "(\<not> unit_count_ok expected actual \<longrightarrow>
      validate_unit_process_ids expected actual = Inl UnitCountMismatch)
   \<and> (unit_count_ok expected actual \<and> \<not> units_found expected actual \<longrightarrow>
      (\<exists>u. validate_unit_process_ids expected actual = Inl (UnitNotFound u)
           \<and> u \<in> fst ` set expected \<and> map_of actual u = None))
   \<and> (unit_count_ok expected actual \<and> units_found expected actual
       \<and> \<not> process_name_counts_ok expected actual \<longrightarrow>
      validate_unit_process_ids expected actual = Inl ProcessNameCountMismatch)
   \<and> (unit_count_ok expected actual \<and> units_found expected actual
       \<and> process_name_counts_ok expected actual \<and> \<not> process_names_found expected actual \<longrightarrow>
      (\<exists>u p e. validate_unit_process_ids expected actual = Inl (ProcessNameMismatch p)
           \<and> (u, p, e) \<in> set (expected_entries expected)
           \<and> map_of (actual_procs actual u) p = None))
   \<and> (unit_count_ok expected actual \<and> units_found expected actual
       \<and> process_name_counts_ok expected actual \<and> process_names_found expected actual
       \<and> \<not> pid_counts_ok expected actual \<longrightarrow>
      (\<exists>u p e n. validate_unit_process_ids expected actual = Inl (PIDCountMismatch u p e n)))
   \<and> (validate_unit_process_ids expected actual = Inr True \<longleftrightarrow>
        unit_count_ok expected actual \<and> units_found expected actual
        \<and> process_name_counts_ok expected actual \<and> process_names_found expected actual
        \<and> pid_counts_ok expected actual)"
proof (intro conjI impI)
  assume "\<not> unit_count_ok expected actual"
  then show "validate_unit_process_ids expected actual = Inl UnitCountMismatch"
    by (rule validate_unit_count)
next
  assume "unit_count_ok expected actual \<and> \<not> units_found expected actual"
  then show "\<exists>u. validate_unit_process_ids expected actual = Inl (UnitNotFound u)
           \<and> u \<in> fst ` set expected \<and> map_of actual u = None"
    using validate_unit_not_found by blast
next
  assume "unit_count_ok expected actual \<and> units_found expected actual
       \<and> \<not> process_name_counts_ok expected actual"
  then show "validate_unit_process_ids expected actual = Inl ProcessNameCountMismatch"
    using validate_name_count by blast
next
  assume "unit_count_ok expected actual \<and> units_found expected actual
       \<and> process_name_counts_ok expected actual \<and> \<not> process_names_found expected actual"
  then show "\<exists>u p e. validate_unit_process_ids expected actual = Inl (ProcessNameMismatch p)
           \<and> (u, p, e) \<in> set (expected_entries expected)
           \<and> map_of (actual_procs actual u) p = None"
    using validate_name_mismatch by blast
next
  assume "unit_count_ok expected actual \<and> units_found expected actual
       \<and> process_name_counts_ok expected actual \<and> process_names_found expected actual
       \<and> \<not> pid_counts_ok expected actual"
  then show "\<exists>u p e n. validate_unit_process_ids expected actual = Inl (PIDCountMismatch u p e n)"
    using validate_pid_count by blast
next
  show "validate_unit_process_ids expected actual = Inr True \<longleftrightarrow>
        unit_count_ok expected actual \<and> units_found expected actual
        \<and> process_name_counts_ok expected actual \<and> process_names_found expected actual
        \<and> pid_counts_ok expected actual"
  proof
    assume ok: "validate_unit_process_ids expected actual = Inr True"
    have 1: "unit_count_ok expected actual"
      using ok validate_unit_count by fastforce
    have 2: "units_found expected actual"
      using ok 1 validate_unit_not_found by fastforce
    have 3: "process_name_counts_ok expected actual"
      using ok 1 2 validate_name_count by fastforce
    have 4: "process_names_found expected actual"
      using ok 1 2 3 validate_name_mismatch by fastforce
    have 5: "pid_counts_ok expected actual"
      using ok 1 2 3 4 validate_pid_count by fastforce
    from 1 2 3 4 5 show "unit_count_ok expected actual \<and> units_found expected actual
        \<and> process_name_counts_ok expected actual \<and> process_names_found expected actual
        \<and> pid_counts_ok expected actual" by simp
  next
    assume "unit_count_ok expected actual \<and> units_found expected actual
        \<and> process_name_counts_ok expected actual \<and> process_names_found expected actual
        \<and> pid_counts_ok expected actual"
    then show "validate_unit_process_ids expected actual = Inr True"
      using validate_all_ok by blast
  qed
qed


theorem validate_unit_process_ids_order_witness:
  "validate_unit_process_ids test_expected test_actual_empty = Inl UnitCountMismatch
   \<and> validate_unit_process_ids test_expected test_actual_unit_missing
       = Inl (UnitNotFound ''unit/0'')
   \<and> validate_unit_process_ids test_expected test_actual_one_name = Inl ProcessNameCountMismatch
   \<and> validate_unit_process_ids test_expected test_actual_bad_name
       = Inl (ProcessNameMismatch ''pr1'')
   \<and> validate_unit_process_ids test_expected test_actual_one_pid
       = Inl (PIDCountMismatch ''unit/0'' ''pr1'' (ExactCount 2) 1)
   \<and> validate_unit_process_ids test_expected test_actual_three_pids
       = Inl (PIDCountMismatch ''unit/0'' ''pr2'' (OneOf [1, 2]) 3)
   \<and> validate_unit_process_ids test_expected test_actual_ok = Inr True
   \<and> \<not> unit_count_ok test_expected test_actual_empty
   \<and> unit_count_ok test_expected test_actual_one_name
   \<and> units_found test_expected test_actual_one_name
   \<and> \<not> process_name_counts_ok test_expected test_actual_one_name
   \<and> unit_count_ok test_expected test_actual_ok
   \<and> units_found test_expected test_actual_ok
   \<and> process_name_counts_ok test_expected test_actual_ok
   \<and> process_names_found test_expected test_actual_ok
   \<and> pid_counts_ok test_expected test_actual_ok"
proof -
  have c1: "\<not> unit_count_ok test_expected test_actual_empty"
    by code_simp
  have c3: "unit_count_ok test_expected test_actual_one_name"
    "units_found test_expected test_actual_one_name"
    "\<not> process_name_counts_ok test_expected test_actual_one_name"
    by code_simp+
  have c6: "unit_count_ok test_expected test_actual_ok"
    "units_found test_expected test_actual_ok"
    "process_name_counts_ok test_expected test_actual_ok"
    "process_names_found test_expected test_actual_ok"
    "pid_counts_ok test_expected test_actual_ok"
    by code_simp+
  have r1: "validate_unit_process_ids test_expected test_actual_empty = Inl UnitCountMismatch"
    using validate_unit_process_ids_order[of test_expected test_actual_empty] c1 by blast
  have r3: "validate_unit_process_ids test_expected test_actual_one_name
      = Inl ProcessNameCountMismatch"
    using validate_unit_process_ids_order[of test_expected test_actual_one_name] c3 by blast
  have r6: "validate_unit_process_ids test_expected test_actual_ok = Inr True"
    using validate_unit_process_ids_order[of test_expected test_actual_ok] c6 by blast
  have r2: "validate_unit_process_ids test_expected test_actual_unit_missing
       = Inl (UnitNotFound ''unit/0'')"
    by code_simp
  have r4: "validate_unit_process_ids test_expected test_actual_bad_name
       = Inl (ProcessNameMismatch ''pr1'')"
    by code_simp
  have r5: "validate_unit_process_ids test_expected test_actual_one_pid
       = Inl (PIDCountMismatch ''unit/0'' ''pr1'' (ExactCount 2) 1)"
    by code_simp
  have r5': "validate_unit_process_ids test_expected test_actual_three_pids
       = Inl (PIDCountMismatch ''unit/0'' ''pr2'' (OneOf [1, 2]) 3)"
    by code_simp
  from c1 c3 c6 r1 r2 r3 r4 r5 r5' r6 show ?thesis
    by (intro conjI)
qed

text \<open>
  C3. In check 5 an expected integer must equal the number of actual PIDs, and an expected
  sequence must contain it. Where checks 1 to 4 pass, the validator returns true if every
  unit and process passes this check, and otherwise raises \<open>PIDCountMismatch\<close> for a unit
  and process that fails it. Expected \<open>[1, 2]\<close> accepts one or two PIDs and rejects any
  other number, three for instance.
\<close>

theorem pid_count_check:
  "pid_count_ok (ExactCount n) pids = (int (length pids) = n)
   \<and> pid_count_ok (OneOf ns) pids = (int (length pids) \<in> set ns)
   \<and> pid_counts_ok expected actual =
       (\<forall>(u, p, e) \<in> set (expected_entries expected). pid_count_ok e (actual_pids actual u p))
   \<and> (unit_count_ok expected actual \<and> units_found expected actual
       \<and> process_name_counts_ok expected actual \<and> process_names_found expected actual \<longrightarrow>
        (if pid_counts_ok expected actual
         then validate_unit_process_ids expected actual = Inr True
         else \<exists>u p e. (u, p, e) \<in> set (expected_entries expected)
                \<and> \<not> pid_count_ok e (actual_pids actual u p)
                \<and> validate_unit_process_ids expected actual
                    = Inl (PIDCountMismatch u p e (length (actual_pids actual u p)))))
   \<and> validate_unit_process_ids [(unit, [(proc, OneOf [1, 2])])] [(unit, [(proc, pids)])] =
       (if length pids = 1 \<or> length pids = 2 then Inr True
        else Inl (PIDCountMismatch unit proc (OneOf [1, 2]) (length pids)))"
proof (intro conjI impI)
  show "pid_count_ok (ExactCount n) pids = (int (length pids) = n)"
    by (simp add: pid_count_ok_def)
  show "pid_count_ok (OneOf ns) pids = (int (length pids) \<in> set ns)"
    by (simp add: pid_count_ok_def)
  show "pid_counts_ok expected actual =
       (\<forall>(u, p, e) \<in> set (expected_entries expected). pid_count_ok e (actual_pids actual u p))"
    unfolding pid_counts_ok_def by (rule list_all_iff)
  show "validate_unit_process_ids [(unit, [(proc, OneOf [1, 2])])] [(unit, [(proc, pids)])] =
       (if length pids = 1 \<or> length pids = 2 then Inr True
        else Inl (PIDCountMismatch unit proc (OneOf [1, 2]) (length pids)))"
    by (auto simp: validate_unit_process_ids_def expected_entries_def actual_procs_def
        actual_pids_def pid_count_ok_def)
next
  assume a: "unit_count_ok expected actual \<and> units_found expected actual
       \<and> process_name_counts_ok expected actual \<and> process_names_found expected actual"
  show "if pid_counts_ok expected actual
         then validate_unit_process_ids expected actual = Inr True
         else \<exists>u p e. (u, p, e) \<in> set (expected_entries expected)
                \<and> \<not> pid_count_ok e (actual_pids actual u p)
                \<and> validate_unit_process_ids expected actual
                    = Inl (PIDCountMismatch u p e (length (actual_pids actual u p)))"
  proof (cases "pid_counts_ok expected actual")
    case True
    with a show ?thesis using validate_all_ok by simp
  next
    case False
    with a validate_pid_count[of expected actual] show ?thesis by auto
  qed
qed

theorem pid_count_check_witness:
  "validate_unit_process_ids [(''u1'', [(''p'', OneOf [1, 2])])] [(''u1'', [(''p'', [''7''])])]
     = Inr True
   \<and> validate_unit_process_ids [(''u1'', [(''p'', OneOf [1, 2])])]
       [(''u1'', [(''p'', [''7'', ''8''])])] = Inr True
   \<and> validate_unit_process_ids [(''u1'', [(''p'', OneOf [1, 2])])]
       [(''u1'', [(''p'', [''7'', ''8'', ''9''])])]
     = Inl (PIDCountMismatch ''u1'' ''p'' (OneOf [1, 2]) 3)
   \<and> unit_count_ok test_expected test_actual_three_pids
   \<and> units_found test_expected test_actual_three_pids
   \<and> process_name_counts_ok test_expected test_actual_three_pids
   \<and> process_names_found test_expected test_actual_three_pids
   \<and> \<not> pid_counts_ok test_expected test_actual_three_pids
   \<and> (\<exists>u p e. (u, p, e) \<in> set (expected_entries test_expected)
          \<and> \<not> pid_count_ok e (actual_pids test_actual_three_pids u p)
          \<and> validate_unit_process_ids test_expected test_actual_three_pids
              = Inl (PIDCountMismatch u p e (length (actual_pids test_actual_three_pids u p))))
   \<and> validate_unit_process_ids test_expected test_actual_three_pids
       = Inl (PIDCountMismatch ''unit/0'' ''pr2'' (OneOf [1, 2]) 3)"
proof -
  have c: "unit_count_ok test_expected test_actual_three_pids"
    "units_found test_expected test_actual_three_pids"
    "process_name_counts_ok test_expected test_actual_three_pids"
    "process_names_found test_expected test_actual_three_pids"
    "\<not> pid_counts_ok test_expected test_actual_three_pids"
    by code_simp+
  note t = pid_count_check[of _ _ _ test_expected test_actual_three_pids]
  from t c have e: "\<exists>u p e. (u, p, e) \<in> set (expected_entries test_expected)
          \<and> \<not> pid_count_ok e (actual_pids test_actual_three_pids u p)
          \<and> validate_unit_process_ids test_expected test_actual_three_pids
              = Inl (PIDCountMismatch u p e (length (actual_pids test_actual_three_pids u p)))"
    by simp
  have r: "validate_unit_process_ids test_expected test_actual_three_pids
       = Inl (PIDCountMismatch ''unit/0'' ''pr2'' (OneOf [1, 2]) 3)"
    by code_simp
  have x1: "validate_unit_process_ids [(''u1'', [(''p'', OneOf [1, 2])])]
      [(''u1'', [(''p'', [''7''])])] = Inr True"
    using pid_count_check[of 0 "[''7'']" "[]" "[]" "[]" "''u1''" "''p''"] by simp
  have x2: "validate_unit_process_ids [(''u1'', [(''p'', OneOf [1, 2])])]
       [(''u1'', [(''p'', [''7'', ''8''])])] = Inr True"
    using pid_count_check[of 0 "[''7'', ''8'']" "[]" "[]" "[]" "''u1''" "''p''"] by simp
  have x3: "validate_unit_process_ids [(''u1'', [(''p'', OneOf [1, 2])])]
       [(''u1'', [(''p'', [''7'', ''8'', ''9''])])]
     = Inl (PIDCountMismatch ''u1'' ''p'' (OneOf [1, 2]) 3)"
    using pid_count_check[of 0 "[''7'', ''8'', ''9'']" "[]" "[]" "[]" "''u1''" "''p''"] by simp
  from x1 x2 x3 c e r show ?thesis
    by (intro conjI)
qed

lemma concat_words_acc:
  "concat (words_acc cur s) = cur @ filter (\<lambda>c. \<not> is_space c) s"
  by (induction s arbitrary: cur) auto

lemma words_acc_pieces:
  "list_all (\<lambda>c. \<not> is_space c) cur \<Longrightarrow>
     list_all (\<lambda>w. w \<noteq> [] \<and> list_all (\<lambda>c. \<not> is_space c) w) (words_acc cur s)"
  by (induction s arbitrary: cur) auto

lemma words_acc_run:
  "words_acc cur s =
     (if cur @ takeWhile (\<lambda>x. \<not> is_space x) s = []
      then words_acc [] (dropWhile (\<lambda>x. \<not> is_space x) s)
      else (cur @ takeWhile (\<lambda>x. \<not> is_space x) s)
             # words_acc [] (dropWhile (\<lambda>x. \<not> is_space x) s))"
proof (induction s arbitrary: cur)
  case Nil
  then show ?case by simp
next
  case (Cons c s)
  show ?case
  proof (cases "is_space c")
    case True
    then show ?thesis by simp
  next
    case False
    then show ?thesis
      using Cons.IH[of "cur @ [c]"] by simp
  qed
qed

lemma split_whitespace_Nil: "split_whitespace [] = []"
  by (simp add: split_whitespace_def)

lemma split_whitespace_space:
  "is_space c \<Longrightarrow> split_whitespace (c # s) = split_whitespace s"
  by (simp add: split_whitespace_def)

lemma split_whitespace_run:
  "\<not> is_space c \<Longrightarrow>
     split_whitespace (c # s) =
       (c # takeWhile (\<lambda>x. \<not> is_space x) s)
         # split_whitespace (dropWhile (\<lambda>x. \<not> is_space x) s)"
  unfolding split_whitespace_def
  by (subst words_acc_run) simp

lemma split_whitespace_skip:
  "list_all is_space pre \<Longrightarrow> split_whitespace (pre @ s) = split_whitespace s"
  by (induction pre) (simp_all add: split_whitespace_space)

lemma split_whitespace_word:
  assumes "w \<noteq> []" "list_all (\<lambda>x. \<not> is_space x) w" "t = [] \<or> is_space (hd t)"
  shows "split_whitespace (w @ t) = w # split_whitespace t"
proof -
  obtain c w' where w: "w = c # w'" using assms(1) by (cases w) auto
  from assms(2) w have c: "\<not> is_space c" and w': "\<forall>x \<in> set w'. \<not> is_space x"
    by (auto simp: list_all_iff)
  from assms(3) w' have tw: "takeWhile (\<lambda>x. \<not> is_space x) (w' @ t) = w'"
    by (cases t) (auto simp: takeWhile_append2)
  from assms(3) w' have dw: "dropWhile (\<lambda>x. \<not> is_space x) (w' @ t) = t"
    by (cases t) (auto simp: dropWhile_append2)
  show ?thesis
    unfolding w using split_whitespace_run[OF c, of "w' @ t"] tw dw by simp
qed

lemma split_whitespace_join:
  assumes "length gs = length ws"
    and "list_all (\<lambda>w. w \<noteq> [] \<and> list_all (\<lambda>x. \<not> is_space x) w) ws"
    and "list_all (list_all is_space) (pre # gs)"
    and "list_all (\<lambda>g. g \<noteq> []) (butlast gs)"
  shows "split_whitespace (pre @ concat (map (\<lambda>(w, g). w @ g) (zip ws gs))) = ws"
  using assms
proof (induction ws arbitrary: gs pre)
  case Nil
  then show ?case
    using split_whitespace_skip[of pre "[]"] by (simp add: split_whitespace_Nil)
next
  case (Cons w ws)
  from Cons.prems(1) obtain g gs' where gs: "gs = g # gs'" and len: "length gs' = length ws"
    by (cases gs) auto
  let ?rest = "concat (map (\<lambda>(w, g). w @ g) (zip ws gs'))"
  from Cons.prems(2) have w: "w \<noteq> []" "list_all (\<lambda>x. \<not> is_space x) w"
    and ws: "list_all (\<lambda>w. w \<noteq> [] \<and> list_all (\<lambda>x. \<not> is_space x) w) ws"
    by simp_all
  from Cons.prems(3) gs have pre: "list_all is_space pre" and g: "list_all is_space g"
    and gs': "list_all (list_all is_space) (g # gs')"
    by simp_all
  have bl: "list_all (\<lambda>g. g \<noteq> []) (butlast gs')"
    using Cons.prems(4) gs by (cases gs') simp_all
  have IH: "split_whitespace (g @ ?rest) = ws"
    by (rule Cons.IH[OF len ws gs' bl])
  have start: "g @ ?rest = [] \<or> is_space (hd (g @ ?rest))"
  proof (cases "gs' = []")
    case True
    with len have "ws = []" by simp
    then show ?thesis using g by (cases g) simp_all
  next
    case False
    with Cons.prems(4) gs have "g \<noteq> []" by simp
    with g show ?thesis by (cases g) simp_all
  qed
  have "split_whitespace (pre @ w @ g @ ?rest) = split_whitespace (w @ g @ ?rest)"
    by (rule split_whitespace_skip[OF pre])
  also have "\<dots> = w # split_whitespace (g @ ?rest)"
    by (rule split_whitespace_word[OF w start])
  finally show ?case
    unfolding gs using IH by simp
qed

text \<open>
  C7. \<open>get_process_id_list\<close> returns the whitespace-separated strings of the remote
  command's standard output when the result code is 0, and with a result code other than 0
  and \<open>expect_success\<close> true it raises \<open>ProcessIdsFailed\<close>. The strings returned are the
  maximal runs of characters that are not whitespace: leading whitespace is skipped, and a
  character that is not whitespace starts a piece that runs up to the next whitespace or
  the end. So any output made of PIDs with whitespace between them, with or without
  whitespace at either end, gives back exactly these PIDs: \<open>1 2\<close> gives \<open>1\<close> and \<open>2\<close>.
  The pieces are non-empty, free of whitespace, and together the output without its
  whitespace.
\<close>

theorem get_process_id_list_result:
  "(Code (run_on_unit unit_name (pidof_command process_name expect_success)) = 0 \<longrightarrow>
      get_process_id_list run_on_unit unit_name process_name expect_success =
        Inr (split_whitespace
              (Stdout (run_on_unit unit_name (pidof_command process_name expect_success)))))
   \<and> (Code (run_on_unit unit_name (pidof_command process_name True)) \<noteq> 0 \<longrightarrow>
      get_process_id_list run_on_unit unit_name process_name True = Inl ProcessIdsFailed)
   \<and> split_whitespace ''1 2'' = [''1'', ''2'']
   \<and> split_whitespace [] = []
   \<and> (is_space c \<longrightarrow> split_whitespace (c # s) = split_whitespace s)
   \<and> (\<not> is_space c \<longrightarrow>
        split_whitespace (c # s) =
          (c # takeWhile (\<lambda>x. \<not> is_space x) s)
            # split_whitespace (dropWhile (\<lambda>x. \<not> is_space x) s))
   \<and> (length gaps = length pids
        \<and> list_all (\<lambda>w. w \<noteq> [] \<and> list_all (\<lambda>x. \<not> is_space x) w) pids
        \<and> list_all (list_all is_space) (lead # gaps)
        \<and> list_all (\<lambda>g. g \<noteq> []) (butlast gaps) \<longrightarrow>
        split_whitespace (lead @ concat (map (\<lambda>(w, g). w @ g) (zip pids gaps))) = pids)
   \<and> concat (split_whitespace s) = filter (\<lambda>c. \<not> is_space c) s
   \<and> list_all (\<lambda>w. w \<noteq> [] \<and> list_all (\<lambda>c. \<not> is_space c) w) (split_whitespace s)"
proof (intro conjI impI)
  assume "Code (run_on_unit unit_name (pidof_command process_name expect_success)) = 0"
  then show "get_process_id_list run_on_unit unit_name process_name expect_success =
        Inr (split_whitespace
              (Stdout (run_on_unit unit_name (pidof_command process_name expect_success))))"
    by (simp add: get_process_id_list_def Let_def)
next
  assume "Code (run_on_unit unit_name (pidof_command process_name True)) \<noteq> 0"
  then show "get_process_id_list run_on_unit unit_name process_name True = Inl ProcessIdsFailed"
    by (simp add: get_process_id_list_def Let_def)
next
  show "split_whitespace ''1 2'' = [''1'', ''2'']"
    by (simp add: split_whitespace_def is_space_def)
  show "split_whitespace [] = []"
    by (rule split_whitespace_Nil)
  show "concat (split_whitespace s) = filter (\<lambda>c. \<not> is_space c) s"
    by (simp add: split_whitespace_def concat_words_acc)
  show "list_all (\<lambda>w. w \<noteq> [] \<and> list_all (\<lambda>c. \<not> is_space c) w) (split_whitespace s)"
    unfolding split_whitespace_def by (rule words_acc_pieces) simp
next
  assume "is_space c"
  then show "split_whitespace (c # s) = split_whitespace s"
    by (rule split_whitespace_space)
next
  assume "\<not> is_space c"
  then show "split_whitespace (c # s) =
          (c # takeWhile (\<lambda>x. \<not> is_space x) s)
            # split_whitespace (dropWhile (\<lambda>x. \<not> is_space x) s)"
    by (rule split_whitespace_run)
next
  assume a: "length gaps = length pids
        \<and> list_all (\<lambda>w. w \<noteq> [] \<and> list_all (\<lambda>x. \<not> is_space x) w) pids
        \<and> list_all (list_all is_space) (lead # gaps)
        \<and> list_all (\<lambda>g. g \<noteq> []) (butlast gaps)"
  show "split_whitespace (lead @ concat (map (\<lambda>(w, g). w @ g) (zip pids gaps))) = pids"
    by (rule split_whitespace_join) (use a in blast)+
qed

theorem get_process_id_list_result_witness:
  "Code returns_ok = 0
   \<and> get_process_id_list (\<lambda>unit_name command. returns_ok) ''ceph-osd/0'' ''ceph-osd'' False
       = Inr [''1'', ''2'']
   \<and> Code returns_nok \<noteq> 0
   \<and> get_process_id_list (\<lambda>unit_name command. returns_nok) ''ceph-osd/0'' ''ceph'' True
       = Inl ProcessIdsFailed
   \<and> pidof_command ''ceph-osd'' False
       = ''pidof -x '' @ CHR 0x22 # ''ceph-osd'' @ CHR 0x22 # '' || exit 0 && exit 1''
   \<and> is_space CHR '' '' \<and> \<not> is_space CHR ''1''
   \<and> split_whitespace ('' '' @ ''1234 5678'')
       = [''1234'', ''5678'']
   \<and> split_whitespace (''1'' @ ''234 5678'')
       = [''1234'', ''5678'']
   \<and> split_whitespace ([CHR 0x09] @ concat (map (\<lambda>(w, g). w @ g)
         (zip [''1234'', ''5678'', ''9''] ['' '', [CHR 0x0A, CHR 0xA0], []])))
       = [''1234'', ''5678'', ''9'']"
proof -
  have ok: "Code returns_ok = 0" and out: "Stdout returns_ok = ''1 2''"
    by (simp_all add: returns_ok_def)
  have nok: "Code returns_nok \<noteq> 0"
    by (simp add: returns_nok_def)
  have sp: "is_space CHR '' ''" and nsp: "\<not> is_space CHR ''1''"
    by (simp_all add: is_space_def)
  have ev: "split_whitespace ''1234 5678'' = [''1234'', ''5678'']"
    by code_simp
  note t1 = get_process_id_list_result
    [of "\<lambda>unit_name command. returns_ok" "''ceph-osd/0''" "''ceph-osd''" False
        "CHR '' ''" "''1234 5678''" "['' '', [CHR 0x0A, CHR 0xA0], []]"
        "[''1234'', ''5678'', ''9'']" "[CHR 0x09]"]
  note t2 = get_process_id_list_result
    [of "\<lambda>unit_name command. returns_nok" "''ceph-osd/0''" "''ceph''" True
        "CHR ''1''" "''234 5678''" "[]" "[]" "[]"]
  from t1 ok out have r1:
    "get_process_id_list (\<lambda>unit_name command. returns_ok) ''ceph-osd/0'' ''ceph-osd'' False
       = Inr [''1'', ''2'']"
    by simp
  from t2 nok have r2:
    "get_process_id_list (\<lambda>unit_name command. returns_nok) ''ceph-osd/0'' ''ceph'' True
       = Inl ProcessIdsFailed"
    by simp
  have cmd: "pidof_command ''ceph-osd'' False
       = ''pidof -x '' @ CHR 0x22 # ''ceph-osd'' @ CHR 0x22 # '' || exit 0 && exit 1''"
    by (simp add: pidof_command_def)
  from t1 sp have "split_whitespace (CHR '' '' # ''1234 5678'') = split_whitespace ''1234 5678''"
    by blast
  with ev have s1: "split_whitespace ('' '' @ ''1234 5678'') = [''1234'', ''5678'']"
    by simp
  from t2 nsp have "split_whitespace (CHR ''1'' # ''234 5678'') =
      (CHR ''1'' # takeWhile (\<lambda>x. \<not> is_space x) ''234 5678'')
        # split_whitespace (dropWhile (\<lambda>x. \<not> is_space x) ''234 5678'')"
    by blast
  then have s2: "split_whitespace (''1'' @ ''234 5678'') = [''1234'', ''5678'']"
    using ev by simp
  have hyp: "length ['' '', [CHR 0x0A, CHR 0xA0], []] = length [''1234'', ''5678'', ''9'']
        \<and> list_all (\<lambda>w. w \<noteq> [] \<and> list_all (\<lambda>x. \<not> is_space x) w) [''1234'', ''5678'', ''9'']
        \<and> list_all (list_all is_space) ([CHR 0x09] # ['' '', [CHR 0x0A, CHR 0xA0], []])
        \<and> list_all (\<lambda>g. g \<noteq> []) (butlast ['' '', [CHR 0x0A, CHR 0xA0], []])"
    by (simp add: is_space_def)
  from t1 hyp have s3: "split_whitespace ([CHR 0x09] @ concat (map (\<lambda>(w, g). w @ g)
         (zip [''1234'', ''5678'', ''9''] ['' '', [CHR 0x0A, CHR 0xA0], []])))
       = [''1234'', ''5678'', ''9'']"
    by blast
  from ok r1 nok r2 cmd sp nsp s1 s2 s3 show ?thesis
    by (intro conjI)
qed

end
